theory Spec2Isabelle
  imports Main
begin

section \<open>JavaScript values used by the validator\<close>

text \<open>
  Strings are \<^typ>\<open>string\<close>. The validator takes the \<^verbatim>\<open>length\<close> of a string only
  once it has found the string to consist of ASCII digits, where JavaScript's
  \<^verbatim>\<open>length\<close> and HOL's \<^const>\<open>length\<close> agree.
  A JavaScript number that holds a natural number or \<^verbatim>\<open>NaN\<close> is a \<^typ>\<open>nat option\<close>
  (\<^const>\<open>None\<close> is \<^verbatim>\<open>NaN\<close>). The numbers that enter the arithmetic of the source come
  from at most eleven digits and are below \<open>2 ^ 53\<close>, where floating point arithmetic is
  exact; of the number a longer string of digits makes, the source uses the sign only.
  A \<^verbatim>\<open>Date\<close> is its time value in milliseconds since the epoch, an \<^typ>\<open>int option\<close>
  (\<^const>\<open>None\<close> is \<^verbatim>\<open>Invalid Date\<close>).
\<close>

type_synonym number = "nat option"

type_synonym Date = "int option"

text \<open>The value of a decimal digit, from its character code (\<open>0\<close> is 48, \<open>9\<close> is 57).\<close>

definition digitOf :: "char \<Rightarrow> nat option" where
  "digitOf c =
     (let code = (of_char c :: nat)
      in if 48 \<le> code \<and> code \<le> 57 then Some (code - 48) else None)"

definition digitChar :: "nat \<Rightarrow> char" where
  "digitChar d = char_of (48 + d)"

text \<open>
  \<^verbatim>\<open>parseInt(s, 10)\<close>: the value of the longest prefix of decimal digits, \<^verbatim>\<open>NaN\<close> when
  the string does not start with a digit. (The leading white space and the sign that
  \<^verbatim>\<open>parseInt\<close> also accepts do not occur: every call passes a string of digits, or
  the digit 2 followed by the rendering of a number.)
\<close>

fun digitsValue :: "nat \<Rightarrow> string \<Rightarrow> nat" where
  "digitsValue acc [] = acc"
| "digitsValue acc (c # cs) =
     (case digitOf c of None \<Rightarrow> acc | Some d \<Rightarrow> digitsValue (10 * acc + d) cs)"

definition parseInt :: "string \<Rightarrow> number" where
  "parseInt s =
     (case s of
        [] \<Rightarrow> None
      | c # cs \<Rightarrow> (case digitOf c of None \<Rightarrow> None | Some d \<Rightarrow> Some (digitsValue d cs)))"

text \<open>The rendering of a number in a template literal, \<^verbatim>\<open>`${n}`\<close>.\<close>

fun digitsOfNat :: "nat \<Rightarrow> string" where
  "digitsOfNat n =
     (if n < 10 then [digitChar n]
      else digitsOfNat (n div 10) @ [digitChar (n mod 10)])"

declare digitsOfNat.simps [simp del]

definition Number_toString :: "number \<Rightarrow> string" where
  "Number_toString n = (case n of None \<Rightarrow> ''NaN'' | Some k \<Rightarrow> digitsOfNat k)"

text \<open>Comparisons and arithmetic with \<^verbatim>\<open>NaN\<close>: every comparison with it is false.\<close>

definition js_lt :: "number \<Rightarrow> number \<Rightarrow> bool" where
  "js_lt a b = (case (a, b) of (Some x, Some y) \<Rightarrow> x < y | _ \<Rightarrow> False)"

definition js_le :: "number \<Rightarrow> number \<Rightarrow> bool" where
  "js_le a b = (case (a, b) of (Some x, Some y) \<Rightarrow> x \<le> y | _ \<Rightarrow> False)"

definition js_mod :: "number \<Rightarrow> nat \<Rightarrow> number" where
  "js_mod a m = map_option (\<lambda>x. x mod m) a"

definition js_add :: "number \<Rightarrow> number \<Rightarrow> number" where
  "js_add a b = (case (a, b) of (Some x, Some y) \<Rightarrow> Some (x + y) | _ \<Rightarrow> None)"

definition Date_le :: "Date \<Rightarrow> Date \<Rightarrow> bool" where
  "Date_le a b = (case (a, b) of (Some x, Some y) \<Rightarrow> x \<le> y | _ \<Rightarrow> False)"

text \<open>
  \<^verbatim>\<open>toLocaleUpperCase\<close> on the ASCII letters (the mappings of other characters, which
  depend on the locale, are left as they are; country codes are ASCII).
\<close>

definition upperChar :: "char \<Rightarrow> char" where
  "upperChar c =
     (case map_of (zip ''abcdefghijklmnopqrstuvwxyz'' ''ABCDEFGHIJKLMNOPQRSTUVWXYZ'') c of
        Some u \<Rightarrow> u
      | None \<Rightarrow> c)"

definition toLocaleUpperCase :: "string \<Rightarrow> string" where
  "toLocaleUpperCase s = map upperChar s"

subsection \<open>Calendar dates and time values\<close>

definition isLeapYear :: "nat \<Rightarrow> bool" where
  "isLeapYear y = (y mod 4 = 0 \<and> (y mod 100 \<noteq> 0 \<or> y mod 400 = 0))"

definition daysInMonth :: "nat \<Rightarrow> nat \<Rightarrow> nat" where
  "daysInMonth y m =
     (if m = 2 then (if isLeapYear y then 29 else 28)
      else if m = 4 \<or> m = 6 \<or> m = 9 \<or> m = 11 then 30
      else 31)"

text \<open>A real calendar date of the Gregorian calendar: month lengths and leap years.\<close>

definition realCalendarDate :: "nat \<Rightarrow> nat \<Rightarrow> nat \<Rightarrow> bool" where
  "realCalendarDate y m d = (1 \<le> m \<and> m \<le> 12 \<and> 1 \<le> d \<and> d \<le> daysInMonth y m)"

text \<open>
  The time value of midnight UTC of a date, as ECMAScript computes it: \<open>DayFromYear\<close>
  counts the days from the epoch to the first of January.
\<close>

definition msPerDay :: int where
  "msPerDay = 86400000"

definition DayFromYear :: "int \<Rightarrow> int" where
  "DayFromYear y =
     365 * (y - 1970) + (y - 1969) div 4 - (y - 1901) div 100 + (y - 1601) div 400"

definition daysBeforeMonth :: "nat \<Rightarrow> nat \<Rightarrow> nat" where
  "daysBeforeMonth y m = sum_list (map (daysInMonth y) [1..<m])"

definition utcMidnight :: "nat \<Rightarrow> nat \<Rightarrow> nat \<Rightarrow> int" where
  "utcMidnight y m d =
     msPerDay * (DayFromYear (int y) + int (daysBeforeMonth y m) + int d - 1)"

text \<open>
  \<^verbatim>\<open>new Date(s)\<close> for the two ISO forms the validator builds, \<^verbatim>\<open>YYYY\<close> and
  \<^verbatim>\<open>YYYY-MM-DD\<close>; both are read as UTC. Any other string is an \<^verbatim>\<open>Invalid Date\<close>
  here (the validator builds no other).
\<close>

definition isDigitString :: "string \<Rightarrow> bool" where
  "isDigitString s = list_all (\<lambda>c. digitOf c \<noteq> None) s"

definition Date_parse :: "string \<Rightarrow> Date" where
  "Date_parse s =
     (if length s = 4 \<and> isDigitString s then
        (case parseInt s of None \<Rightarrow> None | Some y \<Rightarrow> Some (utcMidnight y 1 1))
      else if length s = 10 \<and> s ! 4 = CHR ''-'' \<and> s ! 7 = CHR ''-''
           \<and> isDigitString (take 4 s) \<and> isDigitString (take 2 (drop 5 s))
           \<and> isDigitString (drop 8 s) then
        (case (parseInt (take 4 s), parseInt (take 2 (drop 5 s)), parseInt (drop 8 s)) of
           (Some y, Some m, Some d) \<Rightarrow>
             if realCalendarDate y m d then Some (utcMidnight y m d) else None
         | _ \<Rightarrow> None)
      else None)"

text \<open>
  The system clock. \<^verbatim>\<open>Date.now()\<close> reads it; the validator calls it with no argument,
  so the clock is state of the world: the sequence of the readings to come, of which each
  call consumes the first. (A reading is at least a day below the largest time value, so
  that \<^verbatim>\<open>new Date(Date.now() + ONE_DAY)\<close> is a valid date.)
\<close>

type_synonym clock = "nat \<Rightarrow> int"

definition Date_now :: "clock \<Rightarrow> int \<times> clock" where
  "Date_now clk = (clk 0, \<lambda>k. clk (Suc k))"

section \<open>The helpers of the util and exceptions modules\<close>

text \<open>The error classes of the exceptions module that the validator instantiates.\<close>

datatype error = InvalidFormat | InvalidLength | InvalidChecksum

text \<open>
  Modelled from the spec: \<^verbatim>\<open>strings.isdigits\<close> is not under src. The spec has the
  character class check ``reject if any non-digit present'': a string of ASCII digits.
\<close>

definition isdigits :: "string \<Rightarrow> bool" where
  "isdigits s = list_all (\<lambda>c. digitOf c \<noteq> None) s"

text \<open>
  Modelled from the spec: \<^verbatim>\<open>strings.splitAt\<close> is not under src. The spec decomposes the
  compact form at fixed positions (the first six digits; year, month and day of two
  digits each): the string is cut at each of the given indices, which gives one piece
  more than there are indices.
\<close>

fun splitFrom :: "nat \<Rightarrow> string \<Rightarrow> nat list \<Rightarrow> string list" where
  "splitFrom start v [] = [drop start v]"
| "splitFrom start v (p # ps) = take (p - start) (drop start v) # splitFrom p v ps"

definition splitAt :: "string \<Rightarrow> nat list \<Rightarrow> string list" where
  "splitAt v points = splitFrom 0 v points"

text \<open>
  Modelled from the spec: \<^verbatim>\<open>strings.cleanUnicode\<close> is not under src. The spec has it
  normalise the input and strip the separators; it reports \<open>InvalidFormat\<close> only for an
  input that cannot be normalised at all, which no string is (the parameter of
  \<^verbatim>\<open>clean\<close> is typed \<^verbatim>\<open>string\<close>). So the characters to delete are removed, the rest
  is upper-cased, and the error of the pair is null. Characters outside the alphabet stay
  in the value: it is the guard \<^verbatim>\<open>!strings.isdigits(number)\<close> of \<^verbatim>\<open>validate\<close> that
  rejects them. (The folding of Unicode variants of a character to ASCII is left out.)
\<close>

definition cleanUnicode :: "string \<Rightarrow> string \<Rightarrow> string \<times> error option" where
  "cleanUnicode v deletechars =
     (let cleaned = toLocaleUpperCase (filter (\<lambda>c. c \<notin> set deletechars) v)
      in (cleaned, None))"

text \<open>
  Modelled from the spec: \<^verbatim>\<open>isValidDateCompactYYYYMMDD\<close> is not under src. The spec has
  the century completion form ``a real calendar date (respecting month lengths and leap
  years)''; the argument is the year of four digits, the month and the day.
\<close>

definition isValidDateCompactYYYYMMDD :: "string \<Rightarrow> bool" where
  "isValidDateCompactYYYYMMDD yyyymmdd =
     (case splitAt yyyymmdd [4, 6] of
        [yyyy, mm, dd] \<Rightarrow>
          length yyyymmdd = 8 \<and> isdigits yyyymmdd \<and>
          (case (parseInt yyyy, parseInt mm, parseInt dd) of
             (Some y, Some m, Some d) \<Rightarrow> realCalendarDate y m d
           | _ \<Rightarrow> False)
      | _ \<Rightarrow> False)"

section \<open>The Belgian National Number: be/nn.ts\<close>

text \<open>
  \<^verbatim>\<open>ValidateReturn\<close>: \<^verbatim>\<open>{ isValid: false, error }\<close> or
  \<^verbatim>\<open>{ isValid: true, compact, isIndividual, isCompany }\<close>.
\<close>

datatype ValidateReturn =
  Failure error
| Success (compact_of: string) (isIndividual: bool) (isCompany: bool)

fun isValid :: "ValidateReturn \<Rightarrow> bool" where
  "isValid (Failure e) = False"
| "isValid (Success c i k) = True"

definition clean :: "string \<Rightarrow> string \<times> error option" where
  "clean input = cleanUnicode input '' -.''"

text \<open>\<^verbatim>\<open>compact\<close> throws the error of cleaning: \<^const>\<open>Inl\<close> is the exception.\<close>

definition compact :: "string \<Rightarrow> error + string" where
  "compact input =
     (case clean input of
        (v, Some err) \<Rightarrow> Inl err
      | (v, None) \<Rightarrow> Inr v)"

definition format :: "string \<Rightarrow> string" where
  "format input = (case clean input of (v, err) \<Rightarrow> v)"

definition getFirstSix :: "string \<Rightarrow> string" where
  "getFirstSix number = splitAt number [6] ! 0"

definition getBaseNumberAndChecksum :: "string \<Rightarrow> number list" where
  "getBaseNumberAndChecksum number = map parseInt (splitAt number [9])"

definition toDateArray :: "string \<Rightarrow> string list" where
  "toDateArray number = splitAt number [2, 4]"

definition toChecksumBasis :: "number \<Rightarrow> number \<Rightarrow> number" where
  "toChecksumBasis year baseNumber =
     (let twoPrefixedBaseNumber = parseInt (''2'' @ Number_toString baseNumber)
      in if js_lt year (Some 2000) then baseNumber else twoPrefixedBaseNumber)"

definition ONE_DAY :: int where
  "ONE_DAY = 1000 * 60 * 60 * 24"

definition getApproximatelyNow :: "clock \<Rightarrow> Date \<times> clock" where
  "getApproximatelyNow clk = (case Date_now clk of (t, clk') \<Rightarrow> (Some (t + ONE_DAY), clk'))"

definition yearHasStarted :: "clock \<Rightarrow> number \<Rightarrow> bool \<times> clock" where
  "yearHasStarted clk year =
     (let startOfYear = Date_parse (Number_toString year)
      in case getApproximatelyNow clk of (now, clk') \<Rightarrow> (Date_le startOfYear now, clk'))"

text \<open>\<^verbatim>\<open>filter\<close> with a predicate that reads the clock: one reading per element, in order.\<close>

fun filter_clock :: "(clock \<Rightarrow> 'a \<Rightarrow> bool \<times> clock) \<Rightarrow> clock \<Rightarrow> 'a list \<Rightarrow> 'a list \<times> clock" where
  "filter_clock p clk [] = ([], clk)"
| "filter_clock p clk (x # xs) =
     (case p clk x of (b, clk1) \<Rightarrow>
        (case filter_clock p clk1 xs of (ys, clk2) \<Rightarrow> (if b then x # ys else ys, clk2)))"

definition getBaseNumbersForOnlyYearKnown :: "clock \<Rightarrow> string \<Rightarrow> number \<Rightarrow> number list \<times> clock" where
  "getBaseNumbersForOnlyYearKnown clk firstSix baseNumber =
     (let yy = toDateArray firstSix ! 0;
          toYear = (\<lambda>prefix. parseInt (prefix @ yy))
      in case filter_clock yearHasStarted clk (map toYear [''19'', ''20'']) of
           (years, clk') \<Rightarrow> (map (\<lambda>year. toChecksumBasis year baseNumber) years, clk'))"

definition getValidPastDates :: "clock \<Rightarrow> string \<Rightarrow> string list \<times> clock" where
  "getValidPastDates clk yymmdd =
     (case toDateArray yymmdd of
        [yy, mm, dd] \<Rightarrow>
          (case getApproximatelyNow clk of
             (approximatelyNow, clk') \<Rightarrow>
               (filter (\<lambda>date. Date_le (Date_parse date) approximatelyNow)
                  (map (\<lambda>yyyy. yyyy @ ''-'' @ mm @ ''-'' @ dd)
                     (filter (\<lambda>yyyy. isValidDateCompactYYYYMMDD (yyyy @ mm @ dd))
                        (map (\<lambda>c. c @ yy) [''19'', ''20'']))),
                clk'))
      | _ \<Rightarrow> ([], clk))"

definition extractYearFromDate :: "string \<Rightarrow> number" where
  "extractYearFromDate date = parseInt (takeWhile (\<lambda>c. c \<noteq> CHR ''-'') date)"

definition getChecksumBasesForStandardDate :: "clock \<Rightarrow> string \<Rightarrow> number \<Rightarrow> number list \<times> clock" where
  "getChecksumBasesForStandardDate clk firstSix baseNumber =
     (case getValidPastDates clk firstSix of
        (validPastDates, clk') \<Rightarrow>
          (let validPastYears = map extractYearFromDate validPastDates
           in (map (\<lambda>year. toChecksumBasis year baseNumber) validPastYears, clk')))"

definition isCompletelyUnknownDob :: "string \<Rightarrow> bool" where
  "isCompletelyUnknownDob dob = (dob = ''000001'')"

definition isDobWithOnlyYearKnown :: "string \<Rightarrow> bool" where
  "isDobWithOnlyYearKnown dob =
     (case toDateArray dob of
        [yy, mm, dd] \<Rightarrow> isdigits yy \<and> mm = ''00'' \<and> dd = ''00''
      | _ \<Rightarrow> False)"

definition isValidDob :: "clock \<Rightarrow> string \<Rightarrow> bool \<times> clock" where
  "isValidDob clk dob =
     (case getValidPastDates clk dob of (dates, clk') \<Rightarrow> (length dates \<noteq> 0, clk'))"

definition isValidFirstSix :: "clock \<Rightarrow> string \<Rightarrow> bool \<times> clock" where
  "isValidFirstSix clk firstSix =
     (if isCompletelyUnknownDob firstSix \<or> isDobWithOnlyYearKnown firstSix then (True, clk)
      else isValidDob clk firstSix)"

definition validStructure :: "clock \<Rightarrow> string \<Rightarrow> bool \<times> clock" where
  "validStructure clk number = (let firstSix = getFirstSix number in isValidFirstSix clk firstSix)"

definition getChecksumBases :: "clock \<Rightarrow> string \<Rightarrow> number list \<times> clock" where
  "getChecksumBases clk number =
     (let firstSix = getFirstSix number;
          baseNumber = getBaseNumberAndChecksum number ! 0
      in if isCompletelyUnknownDob firstSix then ([baseNumber], clk)
         else if isDobWithOnlyYearKnown firstSix
           then getBaseNumbersForOnlyYearKnown clk firstSix baseNumber
         else getChecksumBasesForStandardDate clk firstSix baseNumber)"

definition validChecksum :: "clock \<Rightarrow> string \<Rightarrow> bool \<times> clock" where
  "validChecksum clk number =
     (case getChecksumBases clk number of
        (checksumBases, clk') \<Rightarrow>
          (let checksum = getBaseNumberAndChecksum number ! 1
           in (list_ex (\<lambda>csb. js_add (js_mod csb 97) checksum = Some 97) checksumBases, clk')))"

text \<open>
  \<^verbatim>\<open>validate\<close>: \<^const>\<open>Inl\<close> is an exception that leaves the function (the one
  \<^const>\<open>compact\<close> throws), \<^const>\<open>Inr\<close> the value it returns. The clock is returned as
  the calls have left it.
\<close>

definition validate :: "clock \<Rightarrow> string \<Rightarrow> (error + ValidateReturn) \<times> clock" where
  "validate clk input =
     (case compact input of
        Inl err \<Rightarrow> (Inl err, clk)
      | Inr number \<Rightarrow>
          if \<not> isdigits number \<or> js_le (parseInt number) (Some 0)
            then (Inr (Failure InvalidFormat), clk)
          else if length number \<noteq> 11
            then (Inr (Failure InvalidLength), clk)
          else (case validStructure clk number of
            (structureOk, clk1) \<Rightarrow>
              if \<not> structureOk then (Inr (Failure InvalidFormat), clk1)
              else (case validChecksum clk1 number of
                (checksumOk, clk2) \<Rightarrow>
                  if \<not> checksumOk then (Inr (Failure InvalidChecksum), clk2)
                  else (Inr (Success number True False), clk2))))"

section \<open>The registry of validators by country\<close>

text \<open>
  The \<^verbatim>\<open>Validator\<close> interface, with the fields of the object \<^verbatim>\<open>impl\<close> of be/nn.ts.
  The validators of the tables come from modules that are not under src: they are a
  parameter \<open>mods\<close> of the tables (\<open>mods ''AZ'' ''tin''\<close> is \<^verbatim>\<open>AZ.tin\<close>), each taken at
  the type the interface declares.
\<close>

record Validator =
  name :: string
  localName :: string
  abbreviation_str :: string
  compact_fn :: "string \<Rightarrow> string"
  format_fn :: "string \<Rightarrow> string"
  validate_fn :: "string \<Rightarrow> ValidateReturn"

type_synonym modules = "string \<Rightarrow> string \<Rightarrow> Validator"

text \<open>
  The tables are object literals; a lookup is by own key (none of the inherited
  properties of an object has an upper-case name, and the key looked up is upper-cased).
\<close>

definition personValidators :: "modules \<Rightarrow> (string \<times> Validator list) list" where
  "personValidators mods =
     [
      (''AZ'', [mods ''AZ'' ''tin'', mods ''AZ'' ''pin'']),
      (''BA'', [mods ''BA'' ''jmbg'']),
      (''BG'', [mods ''BG'' ''vat'']),
      (''BY'', [mods ''BY'' ''unp'']),
      (''CN'', [mods ''CN'' ''ric'']),
      (''CH'', [mods ''CH'' ''ssn'']),
      (''CU'', [mods ''CU'' ''ni'']),
      (''CZ'', [mods ''CZ'' ''rc'']),
      (''DE'', [mods ''DE'' ''idnr'']),
      (''EE'', [mods ''EE'' ''ik'']),
      (''ES'', [mods ''ES'' ''dni'', mods ''ES'' ''nie'']),
      (''FI'', [mods ''FI'' ''hetu'']),
      (''FR'', [mods ''FR'' ''nir'', mods ''FR'' ''nif'']),
      (''GB'', [mods ''GB'' ''utr'']),
      (''GR'', [mods ''GR'' ''amka'']),
      (''HK'', [mods ''HK'' ''hkid'']),
      (''HR'', [mods ''HR'' ''oib'']),
      (''ID'', [mods ''ID'' ''npwp'']),
      (''IE'', [mods ''IE'' ''pps'']),
      (''IL'', [mods ''IL'' ''idnr'']),
      (''IN'', [mods ''IN'' ''pan'']),
      (''IS'', [mods ''IS'' ''kennitala'']),
      (''IT'', [mods ''IT'' ''codicefiscale'']),
      (''LI'', [mods ''LI'' ''peid'']),
      (''LT'', [mods ''LT'' ''asmens'']),
      (''LV'', [mods ''LV'' ''pvn'']),
      (''MU'', [mods ''MU'' ''nid'']),
      (''KR'', [mods ''KR'' ''rrn'']),
      (''MX'', [mods ''MX'' ''curp'']),
      (''MY'', [mods ''MY'' ''nric'']),
      (''NL'', [mods ''NL'' ''onderwijsnummer'', mods ''NL'' ''bsn'']),
      (''NZ'', [mods ''NZ'' ''ird'']),
      (''PE'', [mods ''PE'' ''cui'', mods ''PE'' ''ce'']),
      (''TH'', [mods ''TH'' ''idnr'']),
      (''US'', [mods ''US'' ''ssn'']),
      (''UY'', [mods ''UY'' ''nie'', mods ''UY'' ''cedula'']),
      (''ZA'', [mods ''ZA'' ''tin'', mods ''ZA'' ''idnr''])
     ]"

definition entityValidators :: "modules \<Rightarrow> (string \<times> Validator list) list" where
  "entityValidators mods =
     [
      (''AU'', [mods ''AU'' ''abn'', mods ''AU'' ''acn'', mods ''AU'' ''tfn'']),
      (''BE'', [mods ''BE'' ''vat'']),
      (''BG'', [mods ''BG'' ''vat'']),
      (''BY'', [mods ''BY'' ''unp'']),
      (''CN'', [mods ''CN'' ''uscc'']),
      (''CH'', [mods ''CH'' ''uid'', mods ''CH'' ''vat'']),
      (''CY'', [mods ''CH'' ''vat'']),
      (''CZ'', [mods ''CZ'' ''dic'']),
      (''DE'', [mods ''DE'' ''vat'', mods ''DE'' ''stnr'']),
      (''DK'', [mods ''DK'' ''cvr'']),
      (''EE'', [mods ''EE'' ''kmkr'', mods ''EE'' ''registrikood'']),
      (''ES'', [mods ''ES'' ''cif'', mods ''ES'' ''nif'']),
      (''FI'', [mods ''FI'' ''alv'', mods ''FI'' ''ytunnus'']),
      (''FR'', [mods ''FR'' ''siren'', mods ''FR'' ''siret'', mods ''FR'' ''tva'']),
      (''GB'', [mods ''GB'' ''vat'']),
      (''GR'', [mods ''GR'' ''vat'']),
      (''HR'', [mods ''HU'' ''anum'']),
      (''ID'', [mods ''ID'' ''npwp'']),
      (''IE'', [mods ''IE'' ''vat'']),
      (''IL'', [mods ''IL'' ''hp'']),
      (''IN'', [mods ''IN'' ''aadhaar'']),
      (''IS'', [mods ''IS'' ''kennitala'', mods ''IS'' ''vsk'']),
      (''IT'', [mods ''IT'' ''iva'']),
      (''LI'', [mods ''LI'' ''peid'']),
      (''LT'', [mods ''LT'' ''pvm'']),
      (''LU'', [mods ''LU'' ''tva'']),
      (''LV'', [mods ''LV'' ''pvn'']),
      (''JP'', [mods ''JP'' ''cn'']),
      (''KR'', [mods ''KR'' ''brn'']),
      (''MC'', [mods ''MC'' ''tva'']),
      (''MD'', [mods ''MD'' ''idno'']),
      (''MT'', [mods ''MT'' ''vat'']),
      (''NL'', [mods ''NL'' ''btw'']),
      (''NZ'', [mods ''NZ'' ''ird'']),
      (''PE'', [mods ''PE'' ''ruc'']),
      (''SG'', [mods ''SG'' ''uen'']),
      (''TW'', [mods ''TW'' ''ubn'']),
      (''US'', [mods ''US'' ''ein'']),
      (''UY'', [mods ''UY'' ''rut'']),
      (''VN'', [mods ''VN'' ''mst'']),
      (''ZA'', [mods ''ZA'' ''tin''])
     ]"

text \<open>
  The result \<^verbatim>\<open>{ isValid?: boolean; checked: boolean }\<close>: \<^verbatim>\<open>{ checked: false }\<close> is
  \<open>Unchecked\<close>, and \<^verbatim>\<open>{ checked: true, isValid: match }\<close> is \<open>Checked match\<close>.
\<close>

datatype CountryResult = Unchecked | Checked bool

text \<open>
  The body that \<^verbatim>\<open>validatePerson\<close> and \<^verbatim>\<open>validateEntity\<close> share, on the list found
  in the table (\<^const>\<open>None\<close> when the table has no such key).
\<close>

definition applyValidators :: "Validator list option \<Rightarrow> string \<Rightarrow> CountryResult" where
  "applyValidators vset v =
     (case vset of
        None \<Rightarrow> Unchecked
      | Some vs \<Rightarrow>
          if length vs = 0 then Unchecked
          else Checked (list_ex (\<lambda>grp. isValid (validate_fn grp v)) vs))"

definition validatePerson :: "modules \<Rightarrow> string \<Rightarrow> string \<Rightarrow> CountryResult" where
  "validatePerson mods country v =
     applyValidators (map_of (personValidators mods) (toLocaleUpperCase country)) v"

definition validateEntity :: "modules \<Rightarrow> string \<Rightarrow> string \<Rightarrow> CountryResult" where
  "validateEntity mods country v =
     applyValidators (map_of (entityValidators mods) (toLocaleUpperCase country)) v"

section \<open>Vocabulary of the properties\<close>

text \<open>The number that the \<open>n\<close> digits of \<open>s\<close> from position \<open>i\<close> on form.\<close>

definition field :: "string \<Rightarrow> nat \<Rightarrow> nat \<Rightarrow> nat" where
  "field s i n = digitsValue 0 (take n (drop i s))"

text \<open>
  A real calendar date that is not later than the instant \<open>now\<close> plus one day
  (its midnight, UTC).
\<close>

definition pastDate :: "int \<Rightarrow> nat \<Rightarrow> nat \<Rightarrow> nat \<Rightarrow> bool" where
  "pastDate now y m d = (realCalendarDate y m d \<and> utcMidnight y m d \<le> now + ONE_DAY)"

text \<open>The decimal concatenation of the digit 2 and the decimal rendering of \<open>n\<close>.\<close>

definition twoPrefixed :: "nat \<Rightarrow> nat" where
  "twoPrefixed n = 2 * 10 ^ length (digitsOfNat n) + n"

text \<open>The checksum equation \<open>(basis mod 97) + checksum = 97\<close>.\<close>

definition checksumEquation :: "nat \<Rightarrow> nat \<Rightarrow> bool" where
  "checksumEquation basis checksum = (basis mod 97 + checksum = 97)"

text \<open>
  Two clocks: one that stands at the instant \<open>t\<close>, and one that reads \<open>t\<close> for its first
  \<open>n\<close> readings and \<open>t'\<close> from then on.
\<close>

definition clockAt :: "int \<Rightarrow> clock" where
  "clockAt t = (\<lambda>k. t)"


text \<open>
  A validator that accepts every value, or none: \<open>accepting ok\<close> answers \<open>ok\<close> for
  \<open>isValid\<close>.
\<close>

definition accepting :: "bool \<Rightarrow> Validator" where
  "accepting ok =
     \<lparr>name = ''test'', localName = ''test'', abbreviation_str = ''T'',
      compact_fn = (\<lambda>v. v), format_fn = (\<lambda>v. v),
      validate_fn = (\<lambda>v. if ok then Success v True False else Failure InvalidFormat)\<rparr>"

section \<open>Properties of the helpers\<close>

subsection \<open>Digits\<close>

lemma digitOf_chars [simp]:
  "digitOf CHR ''0'' = Some 0" "digitOf CHR ''1'' = Some 1" "digitOf CHR ''2'' = Some 2"
  "digitOf CHR ''3'' = Some 3" "digitOf CHR ''4'' = Some 4" "digitOf CHR ''5'' = Some 5"
  "digitOf CHR ''6'' = Some 6" "digitOf CHR ''7'' = Some 7" "digitOf CHR ''8'' = Some 8"
  "digitOf CHR ''9'' = Some 9"
  by (simp_all add: digitOf_def)

lemma digitOf_separators [simp]:
  "digitOf CHR ''-'' = None" "digitOf CHR '' '' = None" "digitOf CHR ''.'' = None"
  "digitOf CHR ''N'' = None" "digitOf CHR ''x'' = None"
  by (simp_all add: digitOf_def)

lemma digitOf_less: "digitOf c = Some d \<Longrightarrow> d < 10"
  by (auto simp: digitOf_def Let_def split: if_splits)

lemma digit_char: "n < 10 \<Longrightarrow> digitOf (digitChar n) = Some n"
  by (simp add: digitOf_def digitChar_def)

lemma isdigits_Nil [simp]: "isdigits []"
  by (simp add: isdigits_def)

lemma isdigits_Cons [simp]: "isdigits (c # cs) = (digitOf c \<noteq> None \<and> isdigits cs)"
  by (simp add: isdigits_def)

lemma isdigits_append [simp]: "isdigits (xs @ ys) = (isdigits xs \<and> isdigits ys)"
  by (simp add: isdigits_def)

lemma isDigitString_isdigits: "isDigitString s = isdigits s"
  by (simp add: isDigitString_def isdigits_def)

lemma digitsValue_append:
  "isdigits xs \<Longrightarrow> digitsValue acc (xs @ ys) = digitsValue (digitsValue acc xs) ys"
  by (induction xs arbitrary: acc) auto

lemma digitsValue_acc:
  "isdigits xs \<Longrightarrow> digitsValue acc xs = acc * 10 ^ length xs + digitsValue 0 xs"
proof (induction xs arbitrary: acc)
  case Nil
  then show ?case by simp
next
  case (Cons c cs)
  then obtain d where d: "digitOf c = Some d" and cs: "isdigits cs" by auto
  have A: "digitsValue acc (c # cs) = (10 * acc + d) * 10 ^ length cs + digitsValue 0 cs"
    using Cons.IH [OF cs, of "10 * acc + d"] by (simp add: d)
  have B: "digitsValue 0 (c # cs) = d * 10 ^ length cs + digitsValue 0 cs"
    using Cons.IH [OF cs, of d] by (simp add: d)
  show ?case
    by (simp only: A B) (simp add: algebra_simps)
qed

lemma digitsValue_snoc:
  "isdigits xs \<Longrightarrow> digitOf c = Some d \<Longrightarrow> digitsValue 0 (xs @ [c]) = 10 * digitsValue 0 xs + d"
  by (simp add: digitsValue_append)

lemma digitsValue_bound: "isdigits xs \<Longrightarrow> digitsValue 0 xs < 10 ^ length xs"
proof (induction xs rule: rev_induct)
  case Nil
  then show ?case by simp
next
  case (snoc c cs)
  then obtain d where d: "digitOf c = Some d" and cs: "isdigits cs" by auto
  have E: "digitsValue 0 (cs @ [c]) = 10 * digitsValue 0 cs + d"
    using cs d by (rule digitsValue_snoc)
  have "d < 10" using d by (rule digitOf_less)
  moreover have "digitsValue 0 cs < 10 ^ length cs" using snoc.IH cs by blast
  ultimately have "10 * digitsValue 0 cs + d < 10 * 10 ^ length cs"
    by linarith
  then show ?case
    by (simp only: E) simp
qed

lemma parseInt_digits:
  "isdigits s \<Longrightarrow> s \<noteq> [] \<Longrightarrow> parseInt s = Some (digitsValue 0 s)"
  by (cases s) (auto simp: parseInt_def)

lemma parseInt_Nil [simp]: "parseInt [] = None"
  by (simp add: parseInt_def)

subsection \<open>The rendering of a number\<close>

lemma digitsOfNat_digits: "isdigits (digitsOfNat n)"
proof (induction n rule: digitsOfNat.induct)
  case (1 n)
  show ?case
  proof (cases "n < 10")
    case True
    then show ?thesis
      by (simp add: digitsOfNat.simps [of n] digit_char)
  next
    case False
    then show ?thesis
      using 1 by (simp add: digitsOfNat.simps [of n] digit_char)
  qed
qed

lemma digitsOfNat_nonempty: "digitsOfNat n \<noteq> []"
  by (simp add: digitsOfNat.simps [of n])

lemma digitsValue_digitsOfNat: "digitsValue 0 (digitsOfNat n) = n"
proof (induction n rule: digitsOfNat.induct)
  case (1 n)
  show ?case
  proof (cases "n < 10")
    case True
    then show ?thesis
      by (simp add: digitsOfNat.simps [of n] digit_char)
  next
    case False
    have "digitsValue 0 (digitsOfNat n)
        = digitsValue (digitsValue 0 (digitsOfNat (n div 10))) [digitChar (n mod 10)]"
      using False by (simp add: digitsOfNat.simps [of n] digitsValue_append digitsOfNat_digits)
    also have "\<dots> = 10 * (n div 10) + n mod 10"
      using 1 False by (simp add: digit_char)
    finally show ?thesis by simp
  qed
qed

lemma parseInt_digitsOfNat: "parseInt (digitsOfNat n) = Some n"
  by (simp add: parseInt_digits digitsOfNat_digits digitsOfNat_nonempty digitsValue_digitsOfNat)

lemma parseInt_two_prefixed: "parseInt (CHR ''2'' # digitsOfNat n) = Some (twoPrefixed n)"
proof -
  have "parseInt (CHR ''2'' # digitsOfNat n) = Some (digitsValue 2 (digitsOfNat n))"
    by (simp add: parseInt_def)
  also have "digitsValue 2 (digitsOfNat n) = 2 * 10 ^ length (digitsOfNat n) + n"
    using digitsValue_acc [OF digitsOfNat_digits, of 2 n] by (simp add: digitsValue_digitsOfNat)
  finally show ?thesis by (simp add: twoPrefixed_def)
qed

lemma length_digitsOfNat_4: "1000 \<le> n \<Longrightarrow> n < 10000 \<Longrightarrow> length (digitsOfNat n) = 4"
proof -
  assume n: "1000 \<le> n" "n < 10000"
  have a: "digitsOfNat n = digitsOfNat (n div 10) @ [digitChar (n mod 10)]"
    using n by (subst digitsOfNat.simps) simp
  have "\<not> n div 10 < 10" "\<not> n div 10 div 10 < 10" "n div 10 div 10 div 10 < 10"
    using n by arith+
  note k = this
  have b: "digitsOfNat (n div 10) = digitsOfNat (n div 10 div 10) @ [digitChar (n div 10 mod 10)]"
    using k by (subst digitsOfNat.simps) simp
  have c: "digitsOfNat (n div 10 div 10)
      = digitsOfNat (n div 10 div 10 div 10) @ [digitChar (n div 10 div 10 mod 10)]"
    using k by (subst digitsOfNat.simps) simp
  have d: "length (digitsOfNat (n div 10 div 10 div 10)) = 1"
    using k by (subst digitsOfNat.simps) simp
  show ?thesis
    by (simp add: a b c d)
qed


subsection \<open>The pieces of the compact form\<close>

lemma splitAt_one: "splitAt v [p] = [take p v, drop p v]"
  by (simp add: splitAt_def)

lemma splitAt_two: "splitAt v [p, q] = [take p v, take (q - p) (drop p v), drop q v]"
  by (simp add: splitAt_def)

lemma getFirstSix_take: "getFirstSix number = take 6 number"
  by (simp add: getFirstSix_def splitAt_one)

lemma toDateArray_eq: "toDateArray s = [take 2 s, take 2 (drop 2 s), drop 4 s]"
  by (simp add: toDateArray_def splitAt_two)

lemma getBaseNumberAndChecksum_eq:
  "getBaseNumberAndChecksum number = [parseInt (take 9 number), parseInt (drop 9 number)]"
  by (simp add: getBaseNumberAndChecksum_def splitAt_one)

lemma isdigits_take: "isdigits s \<Longrightarrow> isdigits (take n s)"
  by (simp add: isdigits_def list_all_iff) (meson in_set_takeD)

lemma isdigits_drop: "isdigits s \<Longrightarrow> isdigits (drop n s)"
  by (simp add: isdigits_def list_all_iff) (meson in_set_dropD)

subsection \<open>Calendar dates in strings\<close>

lemma century_value:
  assumes "isdigits ys" "length ys = 2"
  shows "digitsValue 19 ys = 1900 + digitsValue 0 ys"
    and "digitsValue 20 ys = 2000 + digitsValue 0 ys"
  using digitsValue_acc [OF assms(1), of 19] digitsValue_acc [OF assms(1), of 20] assms(2)
  by simp_all

lemma isValidDateCompactYYYYMMDD_eq:
  assumes "isdigits yyyy" "length yyyy = 4" "isdigits mm" "length mm = 2"
    "isdigits dd" "length dd = 2"
  shows "isValidDateCompactYYYYMMDD (yyyy @ mm @ dd)
    = realCalendarDate (digitsValue 0 yyyy) (digitsValue 0 mm) (digitsValue 0 dd)"
proof -
  have ne: "yyyy \<noteq> []" "mm \<noteq> []" "dd \<noteq> []"
    using assms by auto
  show ?thesis
    using assms ne
    by (simp add: isValidDateCompactYYYYMMDD_def splitAt_two parseInt_digits)
qed

lemma Date_parse_date:
  assumes "isdigits yyyy" "length yyyy = 4" "isdigits mm" "length mm = 2"
    "isdigits dd" "length dd = 2"
  shows "Date_parse (yyyy @ ''-'' @ mm @ ''-'' @ dd)
    = (if realCalendarDate (digitsValue 0 yyyy) (digitsValue 0 mm) (digitsValue 0 dd)
       then Some (utcMidnight (digitsValue 0 yyyy) (digitsValue 0 mm) (digitsValue 0 dd))
       else None)"
proof -
  have ne: "yyyy \<noteq> []" "mm \<noteq> []" "dd \<noteq> []"
    using assms by auto
  show ?thesis
    using assms ne
    by (simp add: Date_parse_def isDigitString_isdigits nth_append parseInt_digits)
qed

lemma Date_parse_year:
  assumes "1000 \<le> y" "y < 10000"
  shows "Date_parse (digitsOfNat y) = Some (utcMidnight y 1 1)"
  using assms
  by (simp add: Date_parse_def isDigitString_isdigits length_digitsOfNat_4 digitsOfNat_digits
      parseInt_digitsOfNat)

lemma digits_not_dash: "isdigits s \<Longrightarrow> \<forall>c \<in> set s. c \<noteq> CHR ''-''"
  by (auto simp: isdigits_def list_all_iff)

lemma extractYearFromDate_eq:
  assumes "isdigits yyyy" "yyyy \<noteq> []"
  shows "extractYearFromDate (yyyy @ ''-'' @ rest) = Some (digitsValue 0 yyyy)"
  using assms digits_not_dash [OF assms(1)]
  by (simp add: extractYearFromDate_def takeWhile_append2 parseInt_digits)

subsection \<open>Date candidates and checksum bases\<close>

lemma toChecksumBasis_Some:
  "toChecksumBasis (Some y) (Some n) = Some (if y < 2000 then n else twoPrefixed n)"
  by (simp add: toChecksumBasis_def Number_toString_def js_lt_def parseInt_two_prefixed)



lemma getApproximatelyNow_eq:
  "getApproximatelyNow clk = (Some (clk 0 + ONE_DAY), \<lambda>k. clk (Suc k))"
  by (simp add: getApproximatelyNow_def Date_now_def)

lemma getValidPastDates_eq:
  assumes "isdigits fs" "length fs = 6"
  shows "getValidPastDates clk fs =
    ((if pastDate (clk 0) (1900 + field fs 0 2) (field fs 2 2) (field fs 4 2)
      then [''19'' @ take 2 fs @ ''-'' @ take 2 (drop 2 fs) @ ''-'' @ drop 4 fs] else []) @
     (if pastDate (clk 0) (2000 + field fs 0 2) (field fs 2 2) (field fs 4 2)
      then [''20'' @ take 2 fs @ ''-'' @ take 2 (drop 2 fs) @ ''-'' @ drop 4 fs] else []),
     \<lambda>k. clk (Suc k))"
proof -
  define yy where "yy = take 2 fs"
  define mm where "mm = take 2 (drop 2 fs)"
  define dd where "dd = drop 4 fs"
  have d: "isdigits yy" "isdigits mm" "isdigits dd"
    using assms(1) by (simp_all add: yy_def mm_def dd_def isdigits_take isdigits_drop)
  have l: "length yy = 2" "length mm = 2" "length dd = 2"
    using assms(2) by (simp_all add: yy_def mm_def dd_def)
  have f: "field fs 0 2 = digitsValue 0 yy" "field fs 2 2 = digitsValue 0 mm"
    "field fs 4 2 = digitsValue 0 dd"
    using assms(2) by (simp_all add: field_def yy_def mm_def dd_def)
  have c: "isdigits (''19'' @ yy)" "length (''19'' @ yy) = 4"
    "isdigits (''20'' @ yy)" "length (''20'' @ yy) = 4"
    using d l by simp_all
  have v19: "isValidDateCompactYYYYMMDD (''19'' @ yy @ mm @ dd)
      = realCalendarDate (1900 + digitsValue 0 yy) (digitsValue 0 mm) (digitsValue 0 dd)"
    using isValidDateCompactYYYYMMDD_eq [OF c(1) c(2) d(2) l(2) d(3) l(3)]
    by (simp add: century_value [OF d(1) l(1)])
  have v20: "isValidDateCompactYYYYMMDD (''20'' @ yy @ mm @ dd)
      = realCalendarDate (2000 + digitsValue 0 yy) (digitsValue 0 mm) (digitsValue 0 dd)"
    using isValidDateCompactYYYYMMDD_eq [OF c(3) c(4) d(2) l(2) d(3) l(3)]
    by (simp add: century_value [OF d(1) l(1)])
  have p19: "Date_parse (''19'' @ yy @ ''-'' @ mm @ ''-'' @ dd)
      = (if realCalendarDate (1900 + digitsValue 0 yy) (digitsValue 0 mm) (digitsValue 0 dd)
         then Some (utcMidnight (1900 + digitsValue 0 yy) (digitsValue 0 mm) (digitsValue 0 dd))
         else None)"
    using Date_parse_date [OF c(1) c(2) d(2) l(2) d(3) l(3)]
    by (simp add: century_value [OF d(1) l(1)])
  have p20: "Date_parse (''20'' @ yy @ ''-'' @ mm @ ''-'' @ dd)
      = (if realCalendarDate (2000 + digitsValue 0 yy) (digitsValue 0 mm) (digitsValue 0 dd)
         then Some (utcMidnight (2000 + digitsValue 0 yy) (digitsValue 0 mm) (digitsValue 0 dd))
         else None)"
    using Date_parse_date [OF c(3) c(4) d(2) l(2) d(3) l(3)]
    by (simp add: century_value [OF d(1) l(1)])
  have "getValidPastDates clk fs =
     (filter (\<lambda>date. Date_le (Date_parse date) (Some (clk 0 + ONE_DAY)))
        (map (\<lambda>yyyy. yyyy @ ''-'' @ mm @ ''-'' @ dd)
           (filter (\<lambda>yyyy. isValidDateCompactYYYYMMDD (yyyy @ mm @ dd))
              [''19'' @ yy, ''20'' @ yy])),
      \<lambda>k. clk (Suc k))"
    by (simp add: getValidPastDates_def toDateArray_eq getApproximatelyNow_eq yy_def mm_def dd_def)
  also have "\<dots> =
    ((if pastDate (clk 0) (1900 + digitsValue 0 yy) (digitsValue 0 mm) (digitsValue 0 dd)
      then [''19'' @ yy @ ''-'' @ mm @ ''-'' @ dd] else []) @
     (if pastDate (clk 0) (2000 + digitsValue 0 yy) (digitsValue 0 mm) (digitsValue 0 dd)
      then [''20'' @ yy @ ''-'' @ mm @ ''-'' @ dd] else []),
     \<lambda>k. clk (Suc k))"
    using v19 v20 p19 p20 by (simp add: pastDate_def Date_le_def)
  finally show ?thesis
    by (simp only: f) (simp add: yy_def mm_def dd_def)
qed






lemma field_bound: "isdigits s \<Longrightarrow> field s i n < 10 ^ n"
proof -
  assume "isdigits s"
  then have "isdigits (take n (drop i s))"
    by (simp add: isdigits_take isdigits_drop)
  then have "digitsValue 0 (take n (drop i s)) < 10 ^ length (take n (drop i s))"
    by (rule digitsValue_bound)
  also have "\<dots> \<le> 10 ^ n"
    by (simp add: power_increasing)
  finally show ?thesis
    by (simp add: field_def)
qed

lemma century_parse:
  assumes "isdigits yy" "length yy = 2"
  shows "parseInt (''19'' @ yy) = Some (1900 + digitsValue 0 yy)"
    and "parseInt (''20'' @ yy) = Some (2000 + digitsValue 0 yy)"
  using assms by (simp_all add: parseInt_def century_value)

lemma getChecksumBasesForStandardDate_eq:
  assumes "isdigits fs" "length fs = 6"
  shows "getChecksumBasesForStandardDate clk fs base =
    (map (\<lambda>y. toChecksumBasis (Some y) base)
       (filter (\<lambda>y. pastDate (clk 0) y (field fs 2 2) (field fs 4 2))
          [1900 + field fs 0 2, 2000 + field fs 0 2]),
     \<lambda>k. clk (Suc k))"
proof -
  have d: "isdigits (take 2 fs)" and l: "length (take 2 fs) = 2"
    using assms by (simp_all add: isdigits_take)
  have f: "field fs 0 2 = digitsValue 0 (take 2 fs)"
    by (simp add: field_def)
  have y19: "extractYearFromDate (CHR ''1'' # CHR ''9'' # take 2 fs @ CHR ''-'' # rest)
      = Some (1900 + field fs 0 2)"
    for rest
    using extractYearFromDate_eq [of "''19'' @ take 2 fs" rest] d
    by (simp add: f century_value [OF d l])
  have y20: "extractYearFromDate (CHR ''2'' # CHR ''0'' # take 2 fs @ CHR ''-'' # rest)
      = Some (2000 + field fs 0 2)"
    for rest
    using extractYearFromDate_eq [of "''20'' @ take 2 fs" rest] d
    by (simp add: f century_value [OF d l])
  show ?thesis
    by (simp add: getChecksumBasesForStandardDate_def getValidPastDates_eq [OF assms] y19 y20)
qed

lemma yearHasStarted_eq:
  assumes "1000 \<le> y" "y < 10000"
  shows "yearHasStarted clk (Some y) = (utcMidnight y 1 1 \<le> clk 0 + ONE_DAY, \<lambda>k. clk (Suc k))"
  using assms
  by (simp add: yearHasStarted_def Number_toString_def Date_parse_year getApproximatelyNow_eq
      Date_le_def)

lemma getBaseNumbersForOnlyYearKnown_eq:
  assumes "isdigits fs" "length fs = 6"
  shows "getBaseNumbersForOnlyYearKnown clk fs base =
    (map (\<lambda>y. toChecksumBasis (Some y) base)
       ((if utcMidnight (1900 + field fs 0 2) 1 1 \<le> clk 0 + ONE_DAY
         then [1900 + field fs 0 2] else []) @
        (if utcMidnight (2000 + field fs 0 2) 1 1 \<le> clk 1 + ONE_DAY
         then [2000 + field fs 0 2] else [])),
     \<lambda>k. clk (Suc (Suc k)))"
proof -
  define Y where "Y = digitsValue 0 (take 2 fs)"
  have d: "isdigits (take 2 fs)" and l: "length (take 2 fs) = 2"
    using assms by (simp_all add: isdigits_take)
  have f: "field fs 0 2 = Y"
    by (simp add: field_def Y_def)
  have b: "Y < 100"
    using digitsValue_bound [OF d] l by (simp add: Y_def)
  have s19: "yearHasStarted c (Some (1900 + Y))
      = (utcMidnight (1900 + Y) 1 1 \<le> c 0 + ONE_DAY, \<lambda>k. c (Suc k))" for c
    using b by (intro yearHasStarted_eq) simp_all
  have s20: "yearHasStarted c (Some (2000 + Y))
      = (utcMidnight (2000 + Y) 1 1 \<le> c 0 + ONE_DAY, \<lambda>k. c (Suc k))" for c
    using b by (intro yearHasStarted_eq) simp_all
  have p: "parseInt (CHR ''1'' # CHR ''9'' # take 2 fs) = Some (1900 + Y)"
    "parseInt (CHR ''2'' # CHR ''0'' # take 2 fs) = Some (2000 + Y)"
    using century_parse [OF d l] by (simp_all add: Y_def)
  show ?thesis
    by (simp add: getBaseNumbersForOnlyYearKnown_def toDateArray_eq Let_def p s19 s20 f)
qed

lemma isDobWithOnlyYearKnown_eq:
  "isDobWithOnlyYearKnown fs
    = (isdigits (take 2 fs) \<and> take 2 (drop 2 fs) = ''00'' \<and> drop 4 fs = ''00'')"
  by (simp add: isDobWithOnlyYearKnown_def toDateArray_eq)







subsection \<open>The stages of validate\<close>

lemma parseInt_digits_length:
  "isdigits s \<Longrightarrow> 0 < length s \<Longrightarrow> parseInt s = Some (digitsValue 0 s)"
  by (rule parseInt_digits) auto

lemma field_take: "i + n \<le> k \<Longrightarrow> field (take k s) i n = field s i n"
  by (simp add: field_def drop_take min_def)

lemma field_whole: "length s = n \<Longrightarrow> field s 0 n = digitsValue 0 s"
  by (simp add: field_def)

lemma field_split:
  assumes "isdigits s" "length s = 11"
  shows "field s 0 11 = field s 0 9 * 100 + field s 9 2"
proof -
  have s: "s = take 9 s @ drop 9 s"
    by simp
  have "digitsValue 0 s = digitsValue (digitsValue 0 (take 9 s)) (drop 9 s)"
    using digitsValue_append [of "take 9 s" 0 "drop 9 s"] assms(1)
    by (simp add: isdigits_take)
  also have "\<dots> = digitsValue 0 (take 9 s) * 10 ^ length (drop 9 s) + digitsValue 0 (drop 9 s)"
    using assms(1) by (intro digitsValue_acc) (simp add: isdigits_drop)
  finally show ?thesis
    using assms(2) by (simp add: field_def)
qed

lemma validStructure_eq:
  assumes "isdigits number" "length number = 11"
  shows "validStructure clk number =
    (if take 6 number = ''000001''
        \<or> (take 2 (drop 2 number) = ''00'' \<and> take 2 (drop 4 number) = ''00'')
     then (True, clk)
     else (pastDate (clk 0) (1900 + field number 0 2) (field number 2 2) (field number 4 2)
           \<or> pastDate (clk 0) (2000 + field number 0 2) (field number 2 2) (field number 4 2),
           \<lambda>k. clk (Suc k)))"
proof -
  have d: "isdigits (take 6 number)" and l: "length (take 6 number) = 6"
    using assms by (simp_all add: isdigits_take)
  have y: "isdigits (take 2 number)"
    using assms by (simp add: isdigits_take)
  show ?thesis
    using assms(2) y
    by (auto simp: validStructure_def getFirstSix_take isValidFirstSix_def
        isCompletelyUnknownDob_def isDobWithOnlyYearKnown_eq isValidDob_def
        getValidPastDates_eq [OF d l] field_take drop_take)
qed

lemma getChecksumBases_eq:
  assumes "isdigits number" "length number = 11"
  shows "getChecksumBases clk number =
    (if take 6 number = ''000001'' then ([Some (field number 0 9)], clk)
     else if take 2 (drop 2 number) = ''00'' \<and> take 2 (drop 4 number) = ''00''
     then (map (\<lambda>y. toChecksumBasis (Some y) (Some (field number 0 9)))
            ((if utcMidnight (1900 + field number 0 2) 1 1 \<le> clk 0 + ONE_DAY
              then [1900 + field number 0 2] else []) @
             (if utcMidnight (2000 + field number 0 2) 1 1 \<le> clk 1 + ONE_DAY
              then [2000 + field number 0 2] else [])),
           \<lambda>k. clk (Suc (Suc k)))
     else (map (\<lambda>y. toChecksumBasis (Some y) (Some (field number 0 9)))
            (filter (\<lambda>y. pastDate (clk 0) y (field number 2 2) (field number 4 2))
               [1900 + field number 0 2, 2000 + field number 0 2]),
           \<lambda>k. clk (Suc k)))"
proof -
  have d: "isdigits (take 6 number)" and l: "length (take 6 number) = 6"
    using assms by (simp_all add: isdigits_take)
  have y: "isdigits (take 2 number)"
    using assms by (simp add: isdigits_take)
  have n: "parseInt (take 9 number) = Some (field number 0 9)"
    using assms by (simp add: parseInt_digits_length isdigits_take field_def)
  show ?thesis
    using assms(2) y
    by (simp add: getChecksumBases_def Let_def getFirstSix_take getBaseNumberAndChecksum_eq n
        isCompletelyUnknownDob_def isDobWithOnlyYearKnown_eq
        getBaseNumbersForOnlyYearKnown_eq [OF d l] getChecksumBasesForStandardDate_eq [OF d l]
        field_take drop_take)
qed

lemma checksum_test:
  "(js_add (js_mod b 97) (Some c) = Some 97) = (\<exists>v. b = Some v \<and> checksumEquation v c)"
  by (cases b) (simp_all add: js_add_def js_mod_def checksumEquation_def)

lemma validChecksum_eq:
  assumes "isdigits number" "length number = 11"
  shows "validChecksum clk number =
    ((\<exists>b \<in> set (fst (getChecksumBases clk number)).
        \<exists>v. b = Some v \<and> checksumEquation v (field number 9 2)),
     snd (getChecksumBases clk number))"
proof -
  have c: "parseInt (drop 9 number) = Some (field number 9 2)"
    using assms by (simp add: parseInt_digits isdigits_drop field_def)
  show ?thesis
    by (simp add: validChecksum_def getBaseNumberAndChecksum_eq c checksum_test
        list_ex_iff split: prod.splits)
qed

lemma validate_eq:
  assumes "compact input = Inr number" "isdigits number" "length number = 11"
    "0 < field number 0 11"
  shows "fst (validate clk input) =
    (if \<not> fst (validStructure clk number) then Inr (Failure InvalidFormat)
     else if \<not> fst (validChecksum (snd (validStructure clk number)) number)
       then Inr (Failure InvalidChecksum)
     else Inr (Success number True False))"
proof -
  have p: "parseInt number = Some (field number 0 11)"
    using assms by (simp add: parseInt_digits_length field_whole)
  show ?thesis
    using assms
    by (simp add: validate_def p js_le_def split: prod.splits)
qed

subsection \<open>Evaluation on concrete inputs\<close>

lemma digitsOfNat_small: "n < 10 \<Longrightarrow> digitsOfNat n = [digitChar n]"
  by (simp add: digitsOfNat.simps)

lemma digitsOfNat_large:
  "\<not> n < 10 \<Longrightarrow> digitsOfNat n = digitsOfNat (n div 10) @ [digitChar (n mod 10)]"
  by (subst digitsOfNat.simps) simp

lemmas date_eval = pastDate_def realCalendarDate_def daysInMonth_def isLeapYear_def
  utcMidnight_def msPerDay_def DayFromYear_def daysBeforeMonth_def ONE_DAY_def upt_conv_Cons

lemmas compact_eval = compact_def clean_def cleanUnicode_def Let_def toLocaleUpperCase_def
  upperChar_def

lemmas number_eval = twoPrefixed_def checksumEquation_def digitsOfNat_small digitsOfNat_large

subsection \<open>Further facts of the validator and the registry\<close>

lemma zero_checksum_fails: "js_add (js_mod b 97) (Some 0) \<noteq> Some 97"
proof (cases b)
  case None
  then show ?thesis by (simp add: js_add_def js_mod_def)
next
  case (Some v)
  have "v mod 97 < 97" by simp
  then show ?thesis
    using Some by (simp add: js_add_def js_mod_def)
qed

lemma digit_not_separator: "digitOf c \<noteq> None \<Longrightarrow> c \<notin> set '' -.''"
  by auto

lemma letter_not_digit: "c \<in> set ''abcdefghijklmnopqrstuvwxyz'' \<Longrightarrow> digitOf c = None"
  by (auto simp: digitOf_def)

lemma upperChar_digit: "digitOf c \<noteq> None \<Longrightarrow> upperChar c = c"
proof -
  assume d: "digitOf c \<noteq> None"
  have "c \<notin> set ''abcdefghijklmnopqrstuvwxyz''"
  proof
    assume "c \<in> set ''abcdefghijklmnopqrstuvwxyz''"
    then have "digitOf c = None"
      by (rule letter_not_digit)
    with d show False
      by contradiction
  qed
  then have "map_of (zip ''abcdefghijklmnopqrstuvwxyz'' ''ABCDEFGHIJKLMNOPQRSTUVWXYZ'') c = None"
    by (subst map_of_zip_is_None) simp_all
  then show ?thesis
    by (simp only: upperChar_def option.case)
qed

lemma toLocaleUpperCase_digits: "isdigits s \<Longrightarrow> toLocaleUpperCase s = s"
  by (induction s) (simp_all add: toLocaleUpperCase_def upperChar_digit)

lemma clean_no_error: "snd (clean input) = None"
  by (simp add: clean_def cleanUnicode_def)

lemma compact_returns: "compact input = Inr (fst (clean input))"
  by (simp add: compact_def clean_def cleanUnicode_def)

lemma clean_digits: "isdigits c \<Longrightarrow> clean c = (c, None)"
proof -
  assume d: "isdigits c"
  then have "\<forall>x \<in> set c. x \<notin> set '' -.''"
    using digit_not_separator by (auto simp: isdigits_def list_all_iff simp del: set_simps)
  then have "filter (\<lambda>x. x \<notin> set '' -.'') c = c"
    by (intro filter_True) blast
  then show ?thesis
    using d by (simp add: clean_def cleanUnicode_def toLocaleUpperCase_digits del: set_simps)
qed

lemma length_digitsOfNat:
  "0 < k \<Longrightarrow> 10 ^ (k - 1) \<le> n \<Longrightarrow> n < 10 ^ k \<Longrightarrow> length (digitsOfNat n) = k"
proof (induction k arbitrary: n)
  case 0
  then show ?case by simp
next
  case (Suc k)
  show ?case
  proof (cases "k = 0")
    case True
    then have "n < 10" using Suc.prems by simp
    then show ?thesis
      using True by (simp add: digitsOfNat.simps [of n])
  next
    case False
    then have k: "0 < k" by simp
    have "10 ^ 1 \<le> (10::nat) ^ k"
      using k by (intro power_increasing) simp_all
    then have big: "\<not> n < 10"
      using Suc.prems(2) by simp
    have lo: "10 ^ (k - 1) \<le> n div 10"
    proof -
      have "10 * 10 ^ (k - 1) = (10::nat) ^ k"
        using k by (cases k) simp_all
      then have "10 * 10 ^ (k - 1) \<le> n"
        using Suc.prems(2) by simp
      then show ?thesis
        by (simp add: less_eq_div_iff_mult_less_eq mult.commute)
    qed
    have hi: "n div 10 < 10 ^ k"
      using Suc.prems(3) by (simp add: less_mult_imp_div_less mult.commute)
    have "length (digitsOfNat (n div 10)) = k"
      using Suc.IH [OF k lo hi] .
    then show ?thesis
      using big by (simp add: digitsOfNat.simps [of n])
  qed
qed

lemma twoPrefixed_nine_digits:
  "10 ^ 8 \<le> n \<Longrightarrow> n < 10 ^ 9 \<Longrightarrow> twoPrefixed n = 2 * 10 ^ 9 + n"
  using length_digitsOfNat [of 9 n] by (simp add: twoPrefixed_def)

lemma twoPrefixed_positive: "0 < twoPrefixed n"
  by (simp add: twoPrefixed_def)




lemma applyValidators_set:
  "set vs = set vs' \<Longrightarrow> applyValidators (Some vs) v = applyValidators (Some vs') v"
proof -
  assume s: "set vs = set vs'"
  then have "(vs = []) = (vs' = [])"
    by (metis set_empty)
  then show ?thesis
    using s by (simp add: applyValidators_def list_ex_iff)
qed

lemma upper_ZZ: "toLocaleUpperCase ''ZZ'' = ''ZZ''"
  by (simp add: toLocaleUpperCase_def upperChar_def)

lemma upper_es: "toLocaleUpperCase ''es'' = ''ES''"
  by (simp add: toLocaleUpperCase_def upperChar_def)

lemma person_ZZ: "map_of (personValidators mods) ''ZZ'' = None"
  by (simp add: personValidators_def)

lemma person_ES:
  "map_of (personValidators mods) ''ES'' = Some [mods ''ES'' ''dni'', mods ''ES'' ''nie'']"
  by (simp add: personValidators_def)

section \<open>The claims\<close>

text \<open>
  C1, as the code has it. For an all-digit, positive compact form of eleven digits that
  passes structural validation, \<open>validate\<close> succeeds exactly when some basis of the
  candidate list satisfies \<open>(basis mod 97) + checksum = 97\<close>, the checksum being the
  number the last two digits form, and reports \<open>InvalidChecksum\<close> otherwise. When the
  first six digits form, under both century completions, a real calendar date that is not
  later than the current instant plus one day, the candidate list holds both bases: the
  number of the first nine digits, and the same with the digit 2 before it.
\<close>

theorem C1_checksum_validation:
  assumes "compact input = Inr number" "isdigits number" "length number = 11"
    "0 < field number 0 11" "validStructure clk number = (True, clk1)"
  shows "((fst (validate clk input) = Inr (Success number True False)) =
            (\<exists>b \<in> set (fst (getChecksumBases clk1 number)).
               \<exists>v. b = Some v \<and> checksumEquation v (field number 9 2)))
       \<and> (\<not> (\<exists>b \<in> set (fst (getChecksumBases clk1 number)).
               \<exists>v. b = Some v \<and> checksumEquation v (field number 9 2)) \<longrightarrow>
            fst (validate clk input) = Inr (Failure InvalidChecksum))
       \<and> (take 6 number \<noteq> ''000001''
            \<and> \<not> (take 2 (drop 2 number) = ''00'' \<and> take 2 (drop 4 number) = ''00'')
            \<and> pastDate (clk1 0) (1900 + field number 0 2) (field number 2 2) (field number 4 2)
            \<and> pastDate (clk1 0) (2000 + field number 0 2) (field number 2 2) (field number 4 2)
            \<longrightarrow> fst (getChecksumBases clk1 number) =
                  [Some (field number 0 9), Some (twoPrefixed (field number 0 9))])"
proof -
  have v: "fst (validate clk input) =
      (if \<exists>b \<in> set (fst (getChecksumBases clk1 number)).
            \<exists>v. b = Some v \<and> checksumEquation v (field number 9 2)
       then Inr (Success number True False) else Inr (Failure InvalidChecksum))"
    by (simp add: validate_eq [OF assms(1-4)] assms(5) validChecksum_eq [OF assms(2,3)])
  have y: "field number 0 2 < 100"
    using field_bound [OF assms(2), of 0 2] by simp
  have "take 6 number \<noteq> ''000001''
      \<and> \<not> (take 2 (drop 2 number) = ''00'' \<and> take 2 (drop 4 number) = ''00'')
      \<and> pastDate (clk1 0) (1900 + field number 0 2) (field number 2 2) (field number 4 2)
      \<and> pastDate (clk1 0) (2000 + field number 0 2) (field number 2 2) (field number 4 2)
      \<longrightarrow> fst (getChecksumBases clk1 number) =
            [Some (field number 0 9), Some (twoPrefixed (field number 0 9))]"
    using y by (simp add: getChecksumBases_eq [OF assms(2,3)] toChecksumBasis_Some)
  then show ?thesis
    by (simp add: v)
qed

theorem C1_checksum_validation_witness:
  "compact ''25.01.01-123.20'' = Inr ''25010112320''
   \<and> validStructure (clockAt 1793577600000) ''25010112320''
        = (True, \<lambda>k. 1793577600000)
   \<and> pastDate 1793577600000 1925 1 1 \<and> pastDate 1793577600000 2025 1 1
   \<and> fst (getChecksumBases (clockAt 1793577600000) ''25010112320'')
        = [Some 250101123, Some 2250101123]
   \<and> \<not> checksumEquation 250101123 20 \<and> checksumEquation 2250101123 20
   \<and> fst (validate (clockAt 1793577600000) ''25.01.01-123.20'')
        = Inr (Success ''25010112320'' True False)"
proof -
  have a: "compact ''25.01.01-123.20'' = Inr ''25010112320''"
    by (simp add: compact_eval)
  have f: "field ''25010112320'' 0 11 = 25010112320" "field ''25010112320'' 0 2 = 25"
    "field ''25010112320'' 2 2 = 1" "field ''25010112320'' 4 2 = 1"
    "field ''25010112320'' 0 9 = 250101123" "field ''25010112320'' 9 2 = 20"
    by (simp_all add: field_def)
  have h: "isdigits ''25010112320''" "length ''25010112320'' = 11"
    "0 < field ''25010112320'' 0 11"
    by (simp_all add: f)
  have p: "pastDate 1793577600000 1925 (Suc 0) (Suc 0)"
    "pastDate 1793577600000 2025 (Suc 0) (Suc 0)"
    by (simp_all add: date_eval)
  have s: "validStructure (\<lambda>k. 1793577600000) ''25010112320'' = (True, \<lambda>k. 1793577600000)"
    using p by (simp add: validStructure_eq [OF h(1,2)] f)
  have n: "twoPrefixed 250101123 = 2250101123"
    by (simp add: number_eval)
  have e: "\<not> checksumEquation 250101123 20" "checksumEquation 2250101123 20"
    by (simp_all add: checksumEquation_def)
  note w = C1_checksum_validation [OF a h s]
  have b: "fst (getChecksumBases (\<lambda>k. 1793577600000) ''25010112320'')
      = [Some 250101123, Some 2250101123]"
    using w [THEN conjunct2, THEN conjunct2] p by (simp add: f n)
  have v: "fst (validate (\<lambda>k. 1793577600000) ''25.01.01-123.20'')
      = Inr (Success ''25010112320'' True False)"
    using w [THEN conjunct1] e by (simp add: b f)
  show ?thesis
    using a s p b e v unfolding clockAt_def by simp
qed

text \<open>
  C1 as the spec has it asks for both bases whenever both completions are real
  calendar dates. The completion 2093-04-01 is a real calendar date, but it is later than
  the current instant (here 2026-11-02): its basis is not tried, and the number that only
  this basis would accept is rejected.
\<close>

theorem C1_both_centuries_counterexample:
  "compact ''93040100139'' = Inr ''93040100139''
   \<and> fst (validStructure (clockAt 1793577600000) ''93040100139'')
   \<and> realCalendarDate 1993 4 1 \<and> realCalendarDate 2093 4 1
   \<and> toChecksumBasis (Some 2093) (Some 930401001) = Some 2930401001
   \<and> checksumEquation 2930401001 39
   \<and> fst (validate (clockAt 1793577600000) ''93040100139'') = Inr (Failure InvalidChecksum)"
proof -
  have a: "compact ''93040100139'' = Inr ''93040100139''"
    by (simp add: compact_eval)
  have f: "field ''93040100139'' 0 11 = 93040100139" "field ''93040100139'' 0 2 = 93"
    "field ''93040100139'' 2 2 = 4" "field ''93040100139'' 4 2 = 1"
    "field ''93040100139'' 0 9 = 930401001" "field ''93040100139'' 9 2 = 39"
    by (simp_all add: field_def)
  have h: "isdigits ''93040100139''" "length ''93040100139'' = 11"
    "0 < field ''93040100139'' 0 11"
    by (simp_all add: f)
  have p: "pastDate 1793577600000 1993 4 (Suc 0)" "\<not> pastDate 1793577600000 2093 4 (Suc 0)"
    by (simp_all add: date_eval)
  have r: "realCalendarDate 1993 4 1" "realCalendarDate 2093 4 1"
    by (simp_all add: date_eval)
  have s: "validStructure (\<lambda>k. 1793577600000) ''93040100139'' = (True, \<lambda>k. 1793577600000)"
    using p by (simp add: validStructure_eq [OF h(1,2)] f)
  have b: "fst (getChecksumBases (\<lambda>k. 1793577600000) ''93040100139'') = [Some 930401001]"
    using p by (simp add: getChecksumBases_eq [OF h(1,2)] f toChecksumBasis_Some)
  have t: "toChecksumBasis (Some 2093) (Some 930401001) = Some 2930401001"
    by (simp add: toChecksumBasis_Some number_eval)
  have e: "checksumEquation 2930401001 39" "\<not> checksumEquation 930401001 39"
    by (simp_all add: checksumEquation_def)
  have v: "fst (validate (\<lambda>k. 1793577600000) ''93040100139'') = Inr (Failure InvalidChecksum)"
    using e by (simp add: validate_eq [OF a h] s validChecksum_eq [OF h(1,2)] b f)
  show ?thesis
    using a s r t e(1) v unfolding clockAt_def by simp
qed

text \<open>
  C2. Structural validation of an all-digit, positive compact form of eleven digits
  depends only on its first six digits (and on the clock), and holds exactly when the
  first six digits are \<open>000001\<close>, or the month and the day are both \<open>00\<close> and the year
  is two digits, or one of the century completions \<open>19yy\<close> and \<open>20yy\<close> forms a real
  calendar date that is not later than the current instant plus one day. When none of
  these holds, \<open>validate\<close> reports \<open>InvalidFormat\<close>.
\<close>

theorem C2_structural_validation:
  assumes "compact input = Inr number" "isdigits number" "length number = 11"
    "0 < field number 0 11"
  shows "(fst (validStructure clk number) =
            (take 6 number = ''000001''
             \<or> (isdigits (take 2 number) \<and> take 2 (drop 2 number) = ''00''
                 \<and> take 2 (drop 4 number) = ''00'')
             \<or> pastDate (clk 0) (1900 + field number 0 2) (field number 2 2) (field number 4 2)
             \<or> pastDate (clk 0) (2000 + field number 0 2) (field number 2 2) (field number 4 2)))
       \<and> (\<not> fst (validStructure clk number) \<longrightarrow>
            fst (validate clk input) = Inr (Failure InvalidFormat))
       \<and> (\<forall>number'. take 6 number' = take 6 number \<longrightarrow>
            validStructure clk number' = validStructure clk number)"
proof -
  have y: "isdigits (take 2 number)"
    using assms(2) by (rule isdigits_take)
  have "fst (validStructure clk number) =
            (take 6 number = ''000001''
             \<or> (isdigits (take 2 number) \<and> take 2 (drop 2 number) = ''00''
                 \<and> take 2 (drop 4 number) = ''00'')
             \<or> pastDate (clk 0) (1900 + field number 0 2) (field number 2 2) (field number 4 2)
             \<or> pastDate (clk 0) (2000 + field number 0 2) (field number 2 2) (field number 4 2))"
    using y by (auto simp: validStructure_eq [OF assms(2,3)])
  moreover have "\<not> fst (validStructure clk number) \<longrightarrow>
      fst (validate clk input) = Inr (Failure InvalidFormat)"
    by (simp add: validate_eq [OF assms])
  moreover have "\<forall>number'. take 6 number' = take 6 number \<longrightarrow>
      validStructure clk number' = validStructure clk number"
    by (simp add: validStructure_def getFirstSix_take)
  ultimately show ?thesis
    by blast
qed

theorem C2_structural_validation_witness:
  "compact ''93 04 01 001-10'' = Inr ''93040100110''
   \<and> isdigits ''93040100110'' \<and> length ''93040100110'' = 11
   \<and> 0 < field ''93040100110'' 0 11
   \<and> pastDate 1793577600000 1993 4 1 \<and> \<not> pastDate 1793577600000 2093 4 1
   \<and> fst (validStructure (clockAt 1793577600000) ''93040100110'')
   \<and> \<not> pastDate 1793577600000 1993 2 30 \<and> \<not> pastDate 1793577600000 2093 2 30
   \<and> \<not> fst (validStructure (clockAt 1793577600000) ''93023000110'')
   \<and> fst (validate (clockAt 1793577600000) ''93.02.30-001.10'') = Inr (Failure InvalidFormat)"
proof -
  have a: "compact ''93 04 01 001-10'' = Inr ''93040100110''"
    by (simp add: compact_eval)
  have b: "compact ''93.02.30-001.10'' = Inr ''93023000110''"
    by (simp add: compact_eval)
  have f: "field ''93040100110'' 0 11 = 93040100110" "field ''93040100110'' 0 2 = 93"
    "field ''93040100110'' 2 2 = 4" "field ''93040100110'' 4 2 = 1"
    "field ''93023000110'' 0 11 = 93023000110" "field ''93023000110'' 0 2 = 93"
    "field ''93023000110'' 2 2 = 2" "field ''93023000110'' 4 2 = 30"
    by (simp_all add: field_def)
  have p: "pastDate 1793577600000 1993 4 1" "\<not> pastDate 1793577600000 2093 4 1"
    "\<not> pastDate 1793577600000 1993 2 30" "\<not> pastDate 1793577600000 2093 2 30"
    by (simp_all add: date_eval)
  have h: "isdigits ''93040100110''" "length ''93040100110'' = 11"
    "0 < field ''93040100110'' 0 11"
    "isdigits ''93023000110''" "length ''93023000110'' = 11"
    "0 < field ''93023000110'' 0 11"
    by (simp_all add: f)
  note good = C2_structural_validation [OF a h(1) h(2) h(3), of "\<lambda>k. 1793577600000"]
  note bad = C2_structural_validation [OF b h(4) h(5) h(6), of "\<lambda>k. 1793577600000"]
  have s1: "fst (validStructure (\<lambda>k. 1793577600000) ''93040100110'')"
    using good [THEN conjunct1] p by (simp add: f)
  have s2: "\<not> fst (validStructure (\<lambda>k. 1793577600000) ''93023000110'')"
    using bad [THEN conjunct1] by (simp add: f p)
  have s3: "fst (validate (\<lambda>k. 1793577600000) ''93.02.30-001.10'') = Inr (Failure InvalidFormat)"
    using bad [THEN conjunct2, THEN conjunct1] s2 by blast
  show ?thesis
    using a h(1) h(2) h(3) p s1 s2 s3 unfolding clockAt_def by blast
qed

text \<open>
  C3, as the code has it. The base number is the number that the first nine digits of the
  compact form make (below \<open>10 ^ 9\<close>), and the checksum the number of the last two. For a
  candidate year before 2000 the basis is the base number. For a year from 2000 on and a
  base number of nine significant digits (the compact form does not start with 0), the
  basis is the digit 2 followed by the nine digits: \<open>2 * 10 ^ 9\<close> plus the base number.
\<close>

theorem C3_checksum_basis:
  "(y < 2000 \<longrightarrow> toChecksumBasis (Some y) (Some n) = Some n)
   \<and> (2000 \<le> y \<and> 10 ^ 8 \<le> n \<and> n < 10 ^ 9 \<longrightarrow>
        toChecksumBasis (Some y) (Some n) = Some (2 * 10 ^ 9 + n))
   \<and> (isdigits number \<and> length number = 11 \<longrightarrow>
        getBaseNumberAndChecksum number ! 0 = Some (field number 0 9)
        \<and> field number 0 9 < 10 ^ 9
        \<and> getBaseNumberAndChecksum number ! 1 = Some (field number 9 2))"
proof -
  have A: "y < 2000 \<longrightarrow> toChecksumBasis (Some y) (Some n) = Some n"
    by (simp add: toChecksumBasis_Some)
  have B: "2000 \<le> y \<and> 10 ^ 8 \<le> n \<and> n < 10 ^ 9 \<longrightarrow>
      toChecksumBasis (Some y) (Some n) = Some (2 * 10 ^ 9 + n)"
    using twoPrefixed_nine_digits [of n] by (simp add: toChecksumBasis_Some)
  have C: "getBaseNumberAndChecksum number ! 0 = Some (field number 0 9)
      \<and> field number 0 9 < 10 ^ 9
      \<and> getBaseNumberAndChecksum number ! 1 = Some (field number 9 2)"
    if d: "isdigits number" and l: "length number = 11"
  proof -
    have "parseInt (take 9 number) = Some (field number 0 9)"
      using d l by (simp add: parseInt_digits_length isdigits_take field_def)
    moreover have "parseInt (drop 9 number) = Some (field number 9 2)"
      using d l by (simp add: parseInt_digits_length isdigits_drop field_def)
    moreover have "field number 0 9 < 10 ^ 9"
      using d by (rule field_bound)
    ultimately show ?thesis
      by (simp add: getBaseNumberAndChecksum_eq)
  qed
  show ?thesis
    using A B C by blast
qed

theorem C3_checksum_basis_witness:
  "isdigits ''17073003384'' \<and> length ''17073003384'' = 11
   \<and> getBaseNumberAndChecksum ''17073003384'' ! 0 = Some 170730033
   \<and> getBaseNumberAndChecksum ''17073003384'' ! 1 = Some 84
   \<and> toChecksumBasis (Some 1917) (Some 170730033) = Some 170730033
   \<and> toChecksumBasis (Some 2017) (Some 170730033) = Some 2170730033"
proof -
  have h: "isdigits ''17073003384''" "length ''17073003384'' = 11"
    by simp_all
  have f: "field ''17073003384'' 0 9 = 170730033" "field ''17073003384'' 9 2 = 84"
    by (simp_all add: field_def)
  note w = C3_checksum_basis [of 1917 170730033 "''17073003384''"]
  note w' = C3_checksum_basis [of 2017 170730033 "''17073003384''"]
  have "getBaseNumberAndChecksum ''17073003384'' ! 0 = Some 170730033
      \<and> getBaseNumberAndChecksum ''17073003384'' ! 1 = Some 84"
    using w [THEN conjunct2, THEN conjunct2] h by (simp add: f)
  moreover have "toChecksumBasis (Some 1917) (Some 170730033) = Some 170730033"
    using w [THEN conjunct1] by simp
  moreover have "toChecksumBasis (Some 2017) (Some 170730033) = Some 2170730033"
    using w' [THEN conjunct2, THEN conjunct1] by simp
  ultimately show ?thesis
    using h by simp
qed

text \<open>
  C3 as the spec has it takes the base number from the digits 7 to 9, a value up to
  999. In the code it is the number of the first nine digits: for \<open>93040100196\<close> it is
  930401001, while the digits 7 to 9 make 1.
\<close>

theorem C3_base_number_counterexample:
  "getBaseNumberAndChecksum ''93040100196'' ! 0 = Some 930401001
   \<and> field ''93040100196'' 6 3 = 1
   \<and> \<not> (930401001::nat) \<le> 999"
  by (simp add: getBaseNumberAndChecksum_eq parseInt_def field_def)

text \<open>
  C4, as the code has it. A basis with remainder 0 modulo 97 satisfies the checksum
  equation with the checksum 97 only. A compact form of eleven digits that ends in \<open>00\<close>
  is never valid: when it is all digits, of positive value and structurally valid,
  \<open>validate\<close> reports \<open>InvalidChecksum\<close>; when its value is zero, \<open>InvalidFormat\<close>.
\<close>

theorem C4_zero_checksum:
  "(b mod 97 = 0 \<longrightarrow> (js_add (js_mod (Some b) 97) (Some c) = Some 97) = (c = 97))
   \<and> (compact input = Inr number \<and> length number = 11 \<and> drop 9 number = ''00'' \<longrightarrow>
        (\<forall>r. fst (validate clk input) = Inr r \<longrightarrow> \<not> isValid r)
        \<and> (isdigits number \<and> 0 < field number 0 11 \<and> fst (validStructure clk number) \<longrightarrow>
             fst (validate clk input) = Inr (Failure InvalidChecksum))
        \<and> (isdigits number \<and> field number 0 11 = 0 \<longrightarrow>
             fst (validate clk input) = Inr (Failure InvalidFormat)))"
proof -
  have A: "b mod 97 = 0 \<longrightarrow> (js_add (js_mod (Some b) 97) (Some c) = Some 97) = (c = 97)"
    by (simp add: js_add_def js_mod_def)
  have B: "\<not> fst (validChecksum k number)" if "drop 9 number = ''00''" for k
    using that
    by (simp add: validChecksum_def getBaseNumberAndChecksum_eq parseInt_def
        zero_checksum_fails list_ex_iff split: prod.splits)
  have C: "\<forall>r. fst (validate clk input) = Inr r \<longrightarrow> \<not> isValid r"
    if "compact input = Inr number" "drop 9 number = ''00''"
  proof -
    have "validChecksum k number \<noteq> (True, c)" for k c
      using B [OF that(2), of k] by auto
    then show ?thesis
      using that(1) by (auto simp: validate_def split: prod.splits if_splits)
  qed
  have D: "fst (validate clk input) = Inr (Failure InvalidChecksum)"
    if "compact input = Inr number" "length number = 11" "drop 9 number = ''00''"
      "isdigits number" "0 < field number 0 11" "fst (validStructure clk number)"
    using that B [OF that(3)]
    by (simp add: validate_eq [OF that(1) that(4) that(2) that(5)])
  have E: "fst (validate clk input) = Inr (Failure InvalidFormat)"
    if "compact input = Inr number" "length number = 11" "isdigits number"
      "field number 0 11 = 0"
  proof -
    have "parseInt number = Some 0"
      using that by (simp add: parseInt_digits_length field_whole)
    then show ?thesis
      using that(1) by (simp add: validate_def js_le_def)
  qed
  show ?thesis
    using A C D E by blast
qed

theorem C4_zero_checksum_witness:
  "(97::nat) mod 97 = 0
   \<and> js_add (js_mod (Some 97) 97) (Some 97) = Some 97
   \<and> js_add (js_mod (Some 97) 97) (Some 0) \<noteq> Some 97
   \<and> compact ''85.07.30-033.00'' = Inr ''85073003300''
   \<and> length ''85073003300'' = 11 \<and> drop 9 ''85073003300'' = ''00''
   \<and> isdigits ''85073003300'' \<and> 0 < field ''85073003300'' 0 11
   \<and> fst (validStructure (clockAt 1793577600000) ''85073003300'')
   \<and> fst (validate (clockAt 1793577600000) ''85.07.30-033.00'') = Inr (Failure InvalidChecksum)"
proof -
  have a: "compact ''85.07.30-033.00'' = Inr ''85073003300''"
    by (simp add: compact_eval)
  have f: "field ''85073003300'' 0 11 = 85073003300" "field ''85073003300'' 0 2 = 85"
    "field ''85073003300'' 2 2 = 7" "field ''85073003300'' 4 2 = 30"
    by (simp_all add: field_def)
  have h: "isdigits ''85073003300''" "length ''85073003300'' = 11"
    "0 < field ''85073003300'' 0 11" "drop 9 ''85073003300'' = ''00''"
    by (simp_all add: f)
  have p: "pastDate 1793577600000 1985 7 30"
    by (simp add: date_eval)
  have s: "fst (validStructure (\<lambda>k. 1793577600000) ''85073003300'')"
    using p by (simp add: validStructure_eq [OF h(1,2)] f)
  note w = C4_zero_checksum [of 97 97 "''85.07.30-033.00''" "''85073003300''"
      "\<lambda>k. 1793577600000"]
  have e1: "js_add (js_mod (Some 97) 97) (Some 97) = Some 97"
    using w [THEN conjunct1] by simp
  have e2: "js_add (js_mod (Some 97) 97) (Some 0) \<noteq> Some 97"
    using C4_zero_checksum [of 97 0 "''85.07.30-033.00''" "''85073003300''"
      "\<lambda>k. 1793577600000", THEN conjunct1] by simp
  have v: "fst (validate (\<lambda>k. 1793577600000) ''85.07.30-033.00'') = Inr (Failure InvalidChecksum)"
    using w [THEN conjunct2] a h s by blast
  show ?thesis
    using a h s e1 e2 v unfolding clockAt_def by simp
qed

text \<open>
  C4 as the spec has it reports \<open>InvalidChecksum\<close> for every structurally valid input
  that ends in \<open>00\<close>. The number of eleven zeros ends in \<open>00\<close> and is structurally valid
  (year only known), but the test for a positive value comes first and reports
  \<open>InvalidFormat\<close>.
\<close>

theorem C4_all_zero_counterexample:
  "compact ''00000000000'' = Inr ''00000000000''
   \<and> isdigits ''00000000000'' \<and> length ''00000000000'' = 11
   \<and> drop 9 ''00000000000'' = ''00''
   \<and> fst (validStructure (clockAt 1793577600000) ''00000000000'')
   \<and> fst (validate (clockAt 1793577600000) ''00000000000'') = Inr (Failure InvalidFormat)"
proof -
  have a: "compact ''00000000000'' = Inr ''00000000000''"
    by (simp add: compact_eval)
  have h: "isdigits ''00000000000''" "length ''00000000000'' = 11"
    "drop 9 ''00000000000'' = ''00''"
    by simp_all
  have s: "fst (validStructure (clockAt 1793577600000) ''00000000000'')"
    by (simp add: validStructure_eq [OF h(1,2)])
  have v: "fst (validate (clockAt 1793577600000) ''00000000000'') = Inr (Failure InvalidFormat)"
    by (simp add: validate_def a parseInt_def js_le_def)
  show ?thesis
    using a h s v by simp
qed

text \<open>
  C5. For every input string \<open>validate\<close> returns a \<open>ValidateReturn\<close>, a success or an
  error kind, and no exception leaves it: cleaning reports no error for a string, so
  \<open>compact\<close> does not throw, and an input with a character outside the alphabet is
  reported as \<open>InvalidFormat\<close>.
\<close>

theorem C5_validate_returns:
  "(\<exists>r. fst (validate clk input) = Inr r)
   \<and> compact input = Inr (fst (clean input))
   \<and> (\<not> isdigits (fst (clean input)) \<longrightarrow>
        fst (validate clk input) = Inr (Failure InvalidFormat))"
proof -
  have c: "compact input = Inr (fst (clean input))"
    by (rule compact_returns)
  have "\<exists>r. fst (validate clk input) = Inr r"
    by (simp add: validate_def c split: prod.splits)
  moreover have "\<not> isdigits (fst (clean input)) \<longrightarrow>
      fst (validate clk input) = Inr (Failure InvalidFormat)"
    by (simp add: validate_def c)
  ultimately show ?thesis
    using c by blast
qed

theorem C5_validate_returns_witness:
  "fst (clean ''12-a3.4'') = ''12A34'' \<and> \<not> isdigits ''12A34''
   \<and> compact ''12-a3.4'' = Inr ''12A34''
   \<and> fst (validate (clockAt 1793577600000) ''12-a3.4'') = Inr (Failure InvalidFormat)"
proof -
  have a: "fst (clean ''12-a3.4'') = ''12A34''"
    by (simp add: clean_def cleanUnicode_def toLocaleUpperCase_def upperChar_def)
  have b: "\<not> isdigits ''12A34''"
    by (simp add: digitOf_def)
  note w = C5_validate_returns [of "clockAt 1793577600000" "''12-a3.4''"]
  have c: "compact ''12-a3.4'' = Inr ''12A34''"
    using w [THEN conjunct2, THEN conjunct1] by (simp add: a)
  have v: "fst (validate (clockAt 1793577600000) ''12-a3.4'') = Inr (Failure InvalidFormat)"
    using w [THEN conjunct2, THEN conjunct2] b by (simp add: a)
  show ?thesis
    using a b c v by simp
qed

text \<open>
  C6, as the code has it. For an input whose compact form is all digits, of positive
  value and not eleven characters long, \<open>validate\<close> reports \<open>InvalidLength\<close>.
\<close>

theorem C6_invalid_length:
  assumes "compact input = Inr number" "isdigits number" "parseInt number = Some n" "0 < n"
    "length number \<noteq> 11"
  shows "fst (validate clk input) = Inr (Failure InvalidLength)"
  using assms by (simp add: validate_def js_le_def)

theorem C6_invalid_length_witness:
  "compact ''93 04 01 001'' = Inr ''930401001'' \<and> isdigits ''930401001''
   \<and> parseInt ''930401001'' = Some 930401001 \<and> length ''930401001'' \<noteq> 11
   \<and> fst (validate (clockAt 1793577600000) ''93 04 01 001'') = Inr (Failure InvalidLength)"
proof -
  have a: "compact ''93 04 01 001'' = Inr ''930401001''"
    by (simp add: compact_eval)
  have b: "isdigits ''930401001''" "parseInt ''930401001'' = Some 930401001"
    "(0::nat) < 930401001" "length ''930401001'' \<noteq> 11"
    by (simp_all add: parseInt_def)
  show ?thesis
    using C6_invalid_length [OF a b, of "\<lambda>k. 1793577600000"] a b unfolding clockAt_def by simp
qed

text \<open>
  C6 as the spec has it reports \<open>InvalidLength\<close> whatever the content. The
  character class and the sign are checked before the length: \<open>0000\<close> has four digits
  and is reported as \<open>InvalidFormat\<close>.
\<close>

theorem C6_short_digits_counterexample:
  "compact ''0000'' = Inr ''0000'' \<and> isdigits ''0000'' \<and> length ''0000'' \<noteq> 11
   \<and> fst (validate (clockAt 1793577600000) ''0000'') = Inr (Failure InvalidFormat)"
  unfolding clockAt_def by (simp add: validate_def compact_eval parseInt_def js_le_def)




text \<open>
  C8. \<open>validatePerson\<close> returns \<open>{ checked: false }\<close> when the table has no list for
  the upper-cased country code or the list is empty, as for \<open>ZZ\<close>; otherwise it returns
  \<open>checked: true\<close> with \<open>isValid\<close> true exactly when some validator of the list accepts
  the value. The outcome does not depend on the order of the validators in the list.
\<close>

theorem C8_registry:
  "(map_of (personValidators mods) (toLocaleUpperCase country) = None \<longrightarrow>
      validatePerson mods country v = Unchecked)
   \<and> (map_of (personValidators mods) (toLocaleUpperCase country) = Some [] \<longrightarrow>
      validatePerson mods country v = Unchecked)
   \<and> (\<forall>vs. map_of (personValidators mods) (toLocaleUpperCase country) = Some vs \<and> vs \<noteq> [] \<longrightarrow>
      validatePerson mods country v = Checked (\<exists>grp \<in> set vs. isValid (validate_fn grp v)))
   \<and> validatePerson mods ''ZZ'' v = Unchecked
   \<and> (\<forall>vs vs'. set vs = set vs' \<longrightarrow>
      applyValidators (Some vs) v = applyValidators (Some vs') v)"
proof (intro conjI)
  show "map_of (personValidators mods) (toLocaleUpperCase country) = None \<longrightarrow>
      validatePerson mods country v = Unchecked"
    by (simp add: validatePerson_def applyValidators_def)
  show "map_of (personValidators mods) (toLocaleUpperCase country) = Some [] \<longrightarrow>
      validatePerson mods country v = Unchecked"
    by (simp add: validatePerson_def applyValidators_def)
  show "\<forall>vs. map_of (personValidators mods) (toLocaleUpperCase country) = Some vs \<and> vs \<noteq> [] \<longrightarrow>
      validatePerson mods country v = Checked (\<exists>grp \<in> set vs. isValid (validate_fn grp v))"
    by (simp add: validatePerson_def applyValidators_def list_ex_iff)
  show "validatePerson mods ''ZZ'' v = Unchecked"
    by (simp add: validatePerson_def upper_ZZ person_ZZ applyValidators_def)
  show "\<forall>vs vs'. set vs = set vs' \<longrightarrow>
      applyValidators (Some vs) v = applyValidators (Some vs') v"
    using applyValidators_set by blast
qed

theorem C8_registry_witness:
  "map_of (personValidators (\<lambda>m e. accepting (e = ''nie''))) (toLocaleUpperCase ''es'')
     = Some [accepting False, accepting True]
   \<and> validatePerson (\<lambda>m e. accepting (e = ''nie'')) ''es'' ''X1234567L'' = Checked True
   \<and> validatePerson (\<lambda>m e. accepting False) ''es'' ''X1234567L'' = Checked False
   \<and> validatePerson (\<lambda>m e. accepting True) ''zz'' ''X1234567L'' = Unchecked
   \<and> set [accepting False, accepting True] = set [accepting True, accepting False]
   \<and> applyValidators (Some [accepting False, accepting True]) ''X1234567L''
       = applyValidators (Some [accepting True, accepting False]) ''X1234567L''"
proof -
  let ?mods = "\<lambda>m e. accepting (e = ''nie'')"
  let ?none = "\<lambda>m e. accepting False"
  note w = C8_registry [of ?mods "''es''" "''X1234567L''"]
  note n = C8_registry [of ?none "''es''" "''X1234567L''"]
  have l: "map_of (personValidators ?mods) (toLocaleUpperCase ''es'')
      = Some [accepting False, accepting True]"
    by (simp add: upper_es person_ES)
  have l': "map_of (personValidators ?none) (toLocaleUpperCase ''es'')
      = Some [accepting False, accepting False]"
    by (simp add: upper_es person_ES)
  have a: "validatePerson ?mods ''es'' ''X1234567L'' = Checked True"
    using w [THEN conjunct2, THEN conjunct2, THEN conjunct1] l
    by (simp add: accepting_def)
  have b: "validatePerson ?none ''es'' ''X1234567L'' = Checked False"
    using n [THEN conjunct2, THEN conjunct2, THEN conjunct1] l'
    by (simp add: accepting_def)
  have u: "toLocaleUpperCase ''zz'' = ''ZZ''"
    by (simp add: toLocaleUpperCase_def upperChar_def)
  have c: "validatePerson (\<lambda>m e. accepting True) ''zz'' ''X1234567L'' = Unchecked"
    using C8_registry [of "\<lambda>m e. accepting True" "''zz''" "''X1234567L''", THEN conjunct1]
    by (simp add: u person_ZZ)
  have s: "set [accepting False, accepting True] = set [accepting True, accepting False]"
    by auto
  have d: "applyValidators (Some [accepting False, accepting True]) ''X1234567L''
       = applyValidators (Some [accepting True, accepting False]) ''X1234567L''"
    using w [THEN conjunct2, THEN conjunct2, THEN conjunct2, THEN conjunct2] s by blast
  show ?thesis
    using l a b c s d by simp
qed

text \<open>
  C9. For a compact form \<open>c\<close> of exactly eleven ASCII digits,
  \<open>compact (format c) = c\<close>.
\<close>

theorem C9_compact_format:
  assumes "length c = 11" "isdigits c"
  shows "compact (format c) = Inr c"
  using assms by (simp add: compact_def format_def clean_digits)

theorem C9_compact_format_witness:
  "length ''93040100110'' = 11 \<and> isdigits ''93040100110''
   \<and> format ''93040100110'' = ''93040100110''
   \<and> compact (format ''93040100110'') = Inr ''93040100110''"
proof -
  have h: "length ''93040100110'' = 11" "isdigits ''93040100110''"
    by simp_all
  have "format ''93040100110'' = ''93040100110''"
    by (simp add: format_def compact_eval)
  then show ?thesis
    using C9_compact_format [OF h] h by simp
qed

text \<open>
  C10. A compact form of eleven digits that starts with \<open>000000\<close> passes structural
  validation by the year-only-known branch. When the years 1900 and 2000 have started at
  the readings of the clock, its candidate list is the base number and the base number
  with the digit 2 before it, and \<open>validate\<close> succeeds exactly when one of the two
  satisfies the checksum equation.
\<close>

theorem C10_all_zero_first_six:
  assumes "compact input = Inr number" "isdigits number" "length number = 11"
    "take 6 number = ''000000''"
    "utcMidnight 2000 1 1 \<le> clk 0 + ONE_DAY" "utcMidnight 2000 1 1 \<le> clk 1 + ONE_DAY"
  shows "validStructure clk number = (True, clk)
       \<and> \<not> isCompletelyUnknownDob (getFirstSix number)
       \<and> isDobWithOnlyYearKnown (getFirstSix number)
       \<and> fst (getChecksumBases clk number)
           = [Some (field number 6 3), Some (twoPrefixed (field number 6 3))]
       \<and> getBaseNumberAndChecksum number ! 0 = Some (field number 6 3)
       \<and> ((fst (validate clk input) = Inr (Success number True False)) =
            (checksumEquation (field number 6 3) (field number 9 2)
             \<or> checksumEquation (twoPrefixed (field number 6 3)) (field number 9 2)))"
proof -
  have t: "take 2 number = ''00''" "take 2 (drop 2 number) = ''00''"
    "take 2 (drop 4 number) = ''00''"
  proof -
    have "take 2 (take 6 number) = ''00''" "take 2 (drop 2 (take 6 number)) = ''00''"
      "take 2 (drop 4 (take 6 number)) = ''00''"
      by (simp_all only: assms(4)) simp_all
    then show "take 2 number = ''00''" "take 2 (drop 2 number) = ''00''"
      "take 2 (drop 4 number) = ''00''"
      by (simp_all add: drop_take)
  qed
  have y: "field number 0 2 = 0"
    by (simp add: field_def t)
  have n9: "field number 0 9 = field number 6 3"
  proof -
    have "take 9 number = take 6 number @ take 3 (drop 6 number)"
      by (metis add_One_commute add_numeral_left numeral_plus_numeral semiring_norm(2,4,5) take_add)
    then show ?thesis
      by (simp add: field_def assms(4))
  qed
  have s: "validStructure clk number = (True, clk)"
    by (simp add: validStructure_eq [OF assms(2,3)] t)
  have k: "isDobWithOnlyYearKnown (getFirstSix number)"
    using assms(3) by (simp add: getFirstSix_take isDobWithOnlyYearKnown_eq assms(4))
  have k': "\<not> isCompletelyUnknownDob (getFirstSix number)"
    by (simp add: getFirstSix_take isCompletelyUnknownDob_def assms(4))
  have u: "utcMidnight 1900 1 1 \<le> utcMidnight 2000 1 1"
    by (simp add: date_eval)
  have b: "fst (getChecksumBases clk number)
      = [Some (field number 6 3), Some (twoPrefixed (field number 6 3))]"
    using assms(5,6) u
    by (simp add: getChecksumBases_eq [OF assms(2,3)] assms(4) t y n9 toChecksumBasis_Some)
  have "parseInt (take 9 number) = Some (field number 0 9)"
    using assms(2,3) by (simp add: parseInt_digits_length isdigits_take field_def)
  then have g: "getBaseNumberAndChecksum number ! 0 = Some (field number 6 3)"
    by (simp add: getBaseNumberAndChecksum_eq n9)
  let ?E = "checksumEquation (field number 6 3) (field number 9 2)
      \<or> checksumEquation (twoPrefixed (field number 6 3)) (field number 9 2)"
  have c: "fst (validChecksum clk number) = ?E"
    by (auto simp: validChecksum_eq [OF assms(2,3)] b)
  have pos: "0 < field number 0 11" if "?E"
  proof -
    have "0 < field number 6 3 \<or> 0 < field number 9 2"
      using that twoPrefixed_positive [of "field number 6 3"]
      by (auto simp: checksumEquation_def twoPrefixed_def digitsOfNat.simps [of 0])
    then show ?thesis
      by (auto simp: field_split [OF assms(2,3)] n9)
  qed
  have v: "(fst (validate clk input) = Inr (Success number True False)) = ?E"
  proof (cases "?E")
    case True
    then show ?thesis
      using validate_eq [OF assms(1-3) pos [OF True], of clk] by (simp add: s c)
  next
    case False
    have "\<not> fst (validChecksum clk number)"
      using False c by simp
    then have "fst (validate clk input) \<noteq> Inr (Success number True False)"
      using assms(1) s
      by (auto simp: validate_def split: prod.splits if_splits)
    then show ?thesis
      using False by simp
  qed
  show ?thesis
    using s k k' b g v by blast
qed

theorem C10_all_zero_first_six_witness:
  "compact ''00.00.00-123.11'' = Inr ''00000012311''
   \<and> isdigits ''00000012311'' \<and> length ''00000012311'' = 11
   \<and> take 6 ''00000012311'' = ''000000''
   \<and> utcMidnight 2000 1 1 \<le> clockAt 1793577600000 0 + ONE_DAY
   \<and> validStructure (clockAt 1793577600000) ''00000012311'' = (True, clockAt 1793577600000)
   \<and> fst (getChecksumBases (clockAt 1793577600000) ''00000012311'') = [Some 123, Some 2123]
   \<and> \<not> checksumEquation 123 11 \<and> checksumEquation 2123 11
   \<and> fst (validate (clockAt 1793577600000) ''00.00.00-123.11'')
        = Inr (Success ''00000012311'' True False)"
proof -
  have a: "compact ''00.00.00-123.11'' = Inr ''00000012311''"
    by (simp add: compact_eval)
  have h: "isdigits ''00000012311''" "length ''00000012311'' = 11"
    "take 6 ''00000012311'' = ''000000''"
    by simp_all
  have u: "utcMidnight 2000 1 1 \<le> clockAt 1793577600000 0 + ONE_DAY"
    "utcMidnight 2000 1 1 \<le> clockAt 1793577600000 1 + ONE_DAY"
    by (simp_all add: date_eval clockAt_def)
  have f: "field ''00000012311'' 6 3 = 123" "field ''00000012311'' 9 2 = 11"
    by (simp_all add: field_def)
  have n: "twoPrefixed 123 = 2123"
    by (simp add: number_eval)
  have e: "\<not> checksumEquation 123 11" "checksumEquation 2123 11"
    by (simp_all add: checksumEquation_def)
  note w = C10_all_zero_first_six [OF a h u]
  have s: "validStructure (clockAt 1793577600000) ''00000012311'' = (True, clockAt 1793577600000)"
    using w by blast
  have b: "fst (getChecksumBases (clockAt 1793577600000) ''00000012311'') = [Some 123, Some 2123]"
    using w [THEN conjunct2, THEN conjunct2, THEN conjunct2, THEN conjunct1] by (simp add: f n)
  have v: "fst (validate (clockAt 1793577600000) ''00.00.00-123.11'')
      = Inr (Success ''00000012311'' True False)"
    using w [THEN conjunct2, THEN conjunct2, THEN conjunct2, THEN conjunct2, THEN conjunct2] e
    by (simp add: f n)
  show ?thesis
    using a h u(1) s b e v by simp
qed

end
